theory Spec2Isabelle
  imports Complex_Main "HOL-Library.Word" "HOL-Library.Multiset"
begin

unbundle bit_operations_syntax

section \<open>The GetNonzeros node of CasADi (symbolic/mx/getnonzeros.cpp)\<close>

text \<open>
  The node gathers nonzeros of its single dependency: output nonzero \<open>k\<close> is input
  nonzero \<open>assigns_[k]\<close>. The embedding follows the member functions of the class:
  \<open>assign\<close>, \<open>init\<close>, \<open>evaluateGen\<close>, \<open>propagateSparsity\<close>, \<open>evaluateMX\<close>,
  \<open>isIdentity\<close> and \<open>generateOperation\<close>.
\<close>

subsection \<open>Failures\<close>

text \<open>
  A failed \<open>casadi_assert\<close> throws; each assertion of the file has its own constructor.
  The source indexes vectors with the unchecked \<open>operator[]\<close> and dereferences pointers
  without a test in some places: an access outside a vector is \<open>OutOfBounds\<close> and a
  dereferenced null pointer is \<open>NullPointer\<close> (undefined behaviour in C++, a failure
  branch here, so that nothing is proved about such runs).
\<close>

datatype error =
    DanglingDependency   \<comment> \<open>\<open>casadi_assert(!d.isNull())\<close> in \<open>assign\<close>\<close>
  | ShapeMismatch        \<comment> \<open>\<open>casadi_assert(inz.size()==size())\<close> in \<open>assign\<close>\<close>
  | InputArity           \<comment> \<open>\<open>casadi_assert(input.size()==1)\<close>\<close>
  | DependencyArity      \<comment> \<open>\<open>casadi_assert(ndep()==1)\<close>\<close>
  | InvalidCoordinate    \<comment> \<open>a triplet outside the matrix, in \<open>sp_triplet\<close>\<close>
  | NullPointer
  | OutOfBounds

definition bindE :: "error + 'a \<Rightarrow> ('a \<Rightarrow> error + 'b) \<Rightarrow> error + 'b" where
  "bindE m f = (case m of Inl e \<Rightarrow> Inl e | Inr x \<Rightarrow> f x)"

text \<open>\<open>for(int k=0; k<n; ++k) body(k)\<close>: the first \<open>n\<close> iterations, then iteration \<open>n\<close>.\<close>

fun for_loop :: "nat \<Rightarrow> (nat \<Rightarrow> 's \<Rightarrow> error + 's) \<Rightarrow> 's \<Rightarrow> error + 's" where
  "for_loop 0 body s = Inr s"
| "for_loop (Suc n) body s = bindE (for_loop n body s) (body n)"

text \<open>\<open>v[i]\<close> on a \<open>std::vector\<close>, with a \<open>size_t\<close> or an \<open>int\<close> index.\<close>

definition vec_at :: "'a list \<Rightarrow> nat \<Rightarrow> error + 'a" where
  "vec_at v i = (if i < length v then Inr (v ! i) else Inl OutOfBounds)"

definition at_int :: "'a list \<Rightarrow> int \<Rightarrow> error + 'a" where
  "at_int v i = (if 0 \<le> i \<and> nat i < length v then Inr (v ! nat i) else Inl OutOfBounds)"

definition set_int :: "'a list \<Rightarrow> int \<Rightarrow> 'a \<Rightarrow> error + 'a list" where
  "set_int v i x = (if 0 \<le> i \<and> nat i < length v then Inr (v[nat i := x]) else Inl OutOfBounds)"

subsection \<open>Numeric buffers\<close>

text \<open>
  The sweep driver hands the node pointers to matrices (\<open>Matrix<T>*\<close>, null when the
  node is not needed). The store maps the address of a matrix to its \<open>data()\<close> vector,
  so two pointers may name the same buffer.
\<close>

type_synonym 'a store = "nat \<Rightarrow> 'a list"
type_synonym ptr = "nat option"

definition data_get :: "'a store \<Rightarrow> nat \<Rightarrow> int \<Rightarrow> error + 'a" where
  "data_get st p i = at_int (st p) i"

definition data_set :: "'a store \<Rightarrow> nat \<Rightarrow> int \<Rightarrow> 'a \<Rightarrow> error + 'a store" where
  "data_set st p i x = bindE (set_int (st p) i x) (\<lambda>v. Inr (st(p := v)))"

subsection \<open>Sparsity patterns and the node\<close>

text \<open>
  Modelled from the spec: the class \<open>CRSSparsity\<close> is not in the source file. It is a
  compressed-row pattern: the dimensions, the column of every nonzero and the row
  offsets; \<open>size()\<close> is the number of nonzeros, \<open>getRow()\<close> the row of every nonzero, and
  two patterns are equal when they are structurally equal.
\<close>

record sparsity =
  size1 :: nat
  size2 :: nat
  col :: "int list"
  rowind :: "nat list"

definition sp_size :: "sparsity \<Rightarrow> nat" where
  "sp_size sp = length (col sp)"

definition getRow :: "sparsity \<Rightarrow> int list" where
  "getRow sp = concat (map (\<lambda>r. replicate (rowind sp ! Suc r - rowind sp ! r) (int r)) [0..<size1 sp])"

text \<open>
  The node: its output pattern, the table \<open>assigns_\<close>, the pair list \<open>assigns2_\<close>
  built by \<open>init\<close>, and its dependencies (handles of type \<open>'d\<close>). The fields are named
  without the trailing underscore of the source.
\<close>

record 'd getnonzeros =
  sparsity :: sparsity
  assigns :: "int list"
  assigns2 :: "(int \<times> int) list"
  dep :: "'d list"

text \<open>The constructor \<open>GetNonzeros(sp)\<close>: \<open>assigns_.resize(sp.size())\<close> fills with zeros.\<close>

definition GetNonzeros :: "sparsity \<Rightarrow> 'd getnonzeros" where
  "GetNonzeros sp = \<lparr>sparsity = sp, assigns = replicate (sp_size sp) 0, assigns2 = [], dep = []\<rparr>"

subsection \<open>evaluateGen\<close>

text \<open>The body \<open>dst->data()[k] = src->data()[assigns_[k]]\<close>.\<close>

definition gather_body :: "int list \<Rightarrow> nat \<Rightarrow> nat \<Rightarrow> nat \<Rightarrow> 'a store \<Rightarrow> error + 'a store" where
  "gather_body asg src dst k st =
     bindE (vec_at asg k) (\<lambda>a.
     bindE (data_get st src a) (\<lambda>v.
     data_set st dst (int k) v))"

text \<open>
  The body \<open>sens->data()[assigns_[k]] += seed->data()[k]; seed->data()[k] = 0\<close>, with
  the addition and the zero of the element type as parameters (\<open>+\<close> on \<open>double\<close> and
  \<open>SX\<close>, \<open>|\<close> on \<open>bvec_t\<close>).
\<close>

definition accumulate_body ::
  "('a \<Rightarrow> 'a \<Rightarrow> 'a) \<Rightarrow> 'a \<Rightarrow> int list \<Rightarrow> nat \<Rightarrow> nat \<Rightarrow> nat \<Rightarrow> 'a store \<Rightarrow> error + 'a store" where
  "accumulate_body add zero asg seed sens k st =
     bindE (vec_at asg k) (\<lambda>a.
     bindE (data_get st seed (int k)) (\<lambda>v.
     bindE (data_get st sens a) (\<lambda>w.
     bindE (data_set st sens a (add w v)) (\<lambda>st1.
     data_set st1 seed (int k) zero))))"

text \<open>\<open>if(input[0]!=0 && output[0]!=0)\<close>, then the gather loop.\<close>

definition evaluate_primal ::
  "'d getnonzeros \<Rightarrow> ptr list \<Rightarrow> ptr list \<Rightarrow> 'a store \<Rightarrow> error + 'a store" where
  "evaluate_primal node input output st =
     bindE (vec_at input 0) (\<lambda>i. case i of None \<Rightarrow> Inr st | Some ip \<Rightarrow>
     bindE (vec_at output 0) (\<lambda>q. case q of None \<Rightarrow> Inr st | Some op \<Rightarrow>
       for_loop (length (assigns node)) (gather_body (assigns node) ip op) st))"

text \<open>Direction \<open>d\<close> of the forward loop: the same gather on \<open>fwdSeed[d][0]\<close>, \<open>fwdSens[d][0]\<close>.\<close>

definition evaluate_tangent ::
  "'d getnonzeros \<Rightarrow> ptr list list \<Rightarrow> ptr list list \<Rightarrow> nat \<Rightarrow> 'a store \<Rightarrow> error + 'a store" where
  "evaluate_tangent node fwdSeed fwdSens d st =
     bindE (vec_at fwdSeed d) (\<lambda>sd. bindE (vec_at sd 0) (\<lambda>i. case i of None \<Rightarrow> Inr st | Some ip \<Rightarrow>
     bindE (vec_at fwdSens d) (\<lambda>sn. bindE (vec_at sn 0) (\<lambda>q. case q of None \<Rightarrow> Inr st | Some op \<Rightarrow>
       for_loop (length (assigns node)) (gather_body (assigns node) ip op) st))))"

text \<open>Direction \<open>d\<close> of the adjoint loop, on \<open>adjSeed[d][0]\<close> and \<open>adjSens[d][0]\<close>.\<close>

definition evaluate_adjoint ::
  "'d getnonzeros \<Rightarrow> ptr list list \<Rightarrow> ptr list list \<Rightarrow> nat \<Rightarrow> ('a::{plus,zero}) store \<Rightarrow> error + 'a store" where
  "evaluate_adjoint node adjSeed adjSens d st =
     bindE (vec_at adjSeed d) (\<lambda>sd. bindE (vec_at sd 0) (\<lambda>i. case i of None \<Rightarrow> Inr st | Some seed \<Rightarrow>
     bindE (vec_at adjSens d) (\<lambda>sn. bindE (vec_at sn 0) (\<lambda>q. case q of None \<Rightarrow> Inr st | Some sens \<Rightarrow>
       for_loop (length (assigns node)) (accumulate_body (+) 0 (assigns node) seed sens) st))))"

text \<open>
  The whole function: the assertion, the primal step, \<open>nfwd = fwdSens.size()\<close> forward
  directions and \<open>nadj = adjSeed.size()\<close> adjoint directions.
\<close>

definition evaluateGen ::
  "'d getnonzeros \<Rightarrow> ptr list \<Rightarrow> ptr list \<Rightarrow> ptr list list \<Rightarrow> ptr list list \<Rightarrow>
   ptr list list \<Rightarrow> ptr list list \<Rightarrow> ('a::{plus,zero}) store \<Rightarrow> error + 'a store" where
  "evaluateGen node input output fwdSeed fwdSens adjSeed adjSens st =
     (if length input \<noteq> 1 then Inl InputArity
      else
        bindE (evaluate_primal node input output st) (\<lambda>st1.
        bindE (for_loop (length fwdSens) (evaluate_tangent node fwdSeed fwdSens) st1) (\<lambda>st2.
        for_loop (length adjSeed) (evaluate_adjoint node adjSeed adjSens) st2)))"

subsection \<open>propagateSparsity\<close>

text \<open>
  \<open>bvec_t\<close> is a 64-bit word; \<open>get_bvec_t\<close> reads the matrix data as such words, so the
  store holds them directly. The test on \<open>fwd\<close> is inside the loop, as in the source.
\<close>

type_synonym bvec_t = "64 word"

definition propagateSparsity ::
  "'d getnonzeros \<Rightarrow> ptr list \<Rightarrow> ptr list \<Rightarrow> bool \<Rightarrow> bvec_t store \<Rightarrow> error + bvec_t store" where
  "propagateSparsity node input output fwd st =
     (if length input \<noteq> 1 then Inl InputArity
      else
        bindE (vec_at input 0) (\<lambda>i. case i of None \<Rightarrow> Inr st | Some inputd \<Rightarrow>
        bindE (vec_at output 0) (\<lambda>q. case q of None \<Rightarrow> Inr st | Some outputd \<Rightarrow>
          for_loop (length (assigns node))
            (\<lambda>k. if fwd then gather_body (assigns node) inputd outputd k
                 else accumulate_body (OR) 0 (assigns node) outputd inputd k) st)))"


subsection \<open>assign and init\<close>

text \<open>
  An \<open>MX\<close> is a shared handle to a node and may be null: \<open>'n option\<close>, where \<open>'n\<close> is
  the type of nodes, \<open>None\<close> is \<open>MX()\<close> and \<open>isNull\<close> tests for it.
\<close>

definition isNull :: "'n option \<Rightarrow> bool" where
  "isNull d = (d = None)"

text \<open>
  Modelled from the spec: \<open>MXNode::addDependency\<close> is not in the source file; the call
  site says "Add the node if it is not already a dependency". It returns the index of
  the dependency.
\<close>

definition addDependency :: "'d \<Rightarrow> 'd getnonzeros \<Rightarrow> nat \<times> 'd getnonzeros" where
  "addDependency d node =
     (if d \<in> set (dep node) then (length (takeWhile (\<lambda>x. x \<noteq> d) (dep node)), node)
      else (length (dep node), node\<lparr>dep := dep node @ [d]\<rparr>))"

text \<open>\<open>assign(d, inz, add)\<close>: the quick return comes before both assertions.\<close>

definition assign ::
  "'n option \<Rightarrow> int list \<Rightarrow> bool \<Rightarrow> ('n option) getnonzeros \<Rightarrow> error + ('n option) getnonzeros" where
  "assign d inz add node =
     (if inz = [] then Inr node
      else if isNull d then Inl DanglingDependency
      else if length inz \<noteq> sp_size (sparsity node) then Inl ShapeMismatch
      else
        let (depind, node1) = addDependency d node in
        for_loop (length inz)
          (\<lambda>k nd. bindE (vec_at inz k) (\<lambda>v.
                   bindE (set_int (assigns nd) (int k) v) (\<lambda>as. Inr (nd\<lparr>assigns := as\<rparr>))))
          node1)"

text \<open>
  \<open>init()\<close>: the base class's \<open>MXNode::init()\<close> (not in the source file) does not touch
  the fields of this class; then the assertion, the clearing of \<open>assigns2_\<close> and one
  \<open>push_back\<close> per output nonzero.
\<close>

definition init :: "'d getnonzeros \<Rightarrow> error + 'd getnonzeros" where
  "init node =
     (if length (dep node) \<noteq> 1 then Inl DependencyArity
      else
        for_loop (length (assigns node))
          (\<lambda>onz nd. bindE (vec_at (assigns nd) onz) (\<lambda>a.
                     Inr (nd\<lparr>assigns2 := assigns2 nd @ [(a, int onz)]\<rparr>)))
          (node\<lparr>assigns2 := []\<rparr>))"

subsection \<open>isIdentity\<close>

text \<open>The scan \<open>for(k...) if(assigns_[k] != k) return false;\<close> from index \<open>k\<close> on.\<close>

fun in_increasing_order :: "nat \<Rightarrow> int list \<Rightarrow> bool" where
  "in_increasing_order k [] = True"
| "in_increasing_order k (a # as) = (if a \<noteq> int k then False else in_increasing_order (Suc k) as)"

text \<open>
  \<open>dep()\<close> is dependency 0; its pattern is read through the handle, with
  \<open>sparsity_of\<close> (the pattern of a node, not in the source file) as a parameter.
\<close>

definition dep_sparsity :: "('n \<Rightarrow> sparsity) \<Rightarrow> ('n option) getnonzeros \<Rightarrow> error + sparsity" where
  "dep_sparsity sparsity_of node =
     bindE (vec_at (dep node) 0) (\<lambda>d.
       case d of None \<Rightarrow> Inl NullPointer | Some n \<Rightarrow> Inr (sparsity_of n))"

definition isIdentity :: "('n \<Rightarrow> sparsity) \<Rightarrow> ('n option) getnonzeros \<Rightarrow> error + bool" where
  "isIdentity sparsity_of node =
     bindE (dep_sparsity sparsity_of node) (\<lambda>dsp.
       if \<not> (sparsity node = dsp) then Inr False
       else Inr (in_increasing_order 0 (assigns node)))"

subsection \<open>generateOperation\<close>

text \<open>Decimal output of \<open>operator<<\<close> on an \<open>int\<close>.\<close>

fun show_nat :: "nat \<Rightarrow> string" where
  "show_nat n =
     (if n < 10 then [''0123456789'' ! n] else show_nat (n div 10) @ [''0123456789'' ! (n mod 10)])"

definition show_int :: "int \<Rightarrow> string" where
  "show_int i = (if i < 0 then CHR ''-'' # show_nat (nat (- i)) else show_nat (nat i))"

text \<open>
  Modelled from the spec: \<open>CodeGenerator::getConstant\<close> is not in the source file. The
  pool interns integer tables by content: a table already in the pool keeps its handle,
  a new one is appended; the handle is the position in the pool.
\<close>

type_synonym constant_pool = "int list list"

definition getConstant :: "int list \<Rightarrow> constant_pool \<Rightarrow> int \<times> constant_pool" where
  "getConstant v pool =
     (if v \<in> set pool then (int (length (takeWhile (\<lambda>x. x \<noteq> v) pool)), pool)
      else (int (length pool), pool @ [v]))"

definition endl :: string where
  "endl = [CHR 0x0A]"

definition zero_fill_statement :: "nat \<Rightarrow> string \<Rightarrow> string" where
  "zero_fill_statement n r =
     ''  for(i=0; i<'' @ show_int (int n) @ ''; ++i) '' @ r @ ''[i]=0;'' @ endl"

definition accumulate_statement :: "nat \<Rightarrow> string \<Rightarrow> int \<Rightarrow> string \<Rightarrow> int \<Rightarrow> string" where
  "accumulate_statement n r ind2 a ind1 =
     ''  for(i=0; i<'' @ show_int (int n) @ ''; ++i) '' @ r @ ''[s'' @ show_int ind2 @ ''[i]] += ''
       @ a @ ''[s'' @ show_int ind1 @ ''[i]];'' @ endl"

text \<open>
  The stream and the generator are the state. \<open>res.front()\<close> is read for the first
  statement, \<open>arg.front()\<close> only for the second.
\<close>

definition generateOperation ::
  "'d getnonzeros \<Rightarrow> string list \<Rightarrow> string list \<Rightarrow> string \<times> constant_pool \<Rightarrow>
   error + (string \<times> constant_pool)" where
  "generateOperation node arg res s =
     (case s of (stream, gen) \<Rightarrow>
       bindE (vec_at res 0) (\<lambda>r.
         let stream1 = stream @ zero_fill_statement (sp_size (sparsity node)) r;
             tmp1 = map fst (assigns2 node);
             tmp2 = map snd (assigns2 node);
             (ind1, gen1) = getConstant tmp1 gen;
             (ind2, gen2) = getConstant tmp2 gen1
         in bindE (vec_at arg 0) (\<lambda>a.
              Inr (stream1 @ accumulate_statement (length (assigns2 node)) r ind2 a ind1, gen2))))"

subsection \<open>evaluateMX: the order of the assignments by input nonzero\<close>

text \<open>
  The three loops that "resort the assigns vector with increasing inputs instead of
  outputs", with \<open>nin = icol.size()\<close>: the count of every input nonzero, shifted by one;
  the running sum, which turns the counts into the first position of every input
  nonzero; and the placement of every \<open>k\<close> at the next free position of its input
  nonzero. The order is recomputed at every call and is not stored in the node.
\<close>

definition count_inputs :: "(int \<times> int) list \<Rightarrow> nat \<Rightarrow> error + int list" where
  "count_inputs a2 nin =
     for_loop (length a2)
       (\<lambda>k inz_count. bindE (vec_at a2 k) (\<lambda>it.
          bindE (at_int inz_count (fst it + 1)) (\<lambda>c.
          set_int inz_count (fst it + 1) (c + 1))))
       (replicate (nin + 1) 0)"

definition cumsum :: "nat \<Rightarrow> int list \<Rightarrow> error + int list" where
  "cumsum nin inz_count0 =
     for_loop nin
       (\<lambda>i inz_count. bindE (at_int inz_count (int i)) (\<lambda>x.
          bindE (at_int inz_count (int i + 1)) (\<lambda>y.
          set_int inz_count (int i + 1) (y + x))))
       inz_count0"

definition place_assignments :: "(int \<times> int) list \<Rightarrow> int list \<Rightarrow> error + (int list \<times> int list)" where
  "place_assignments a2 inz_count0 =
     for_loop (length a2)
       (\<lambda>k s. case s of (inz_count, assigns2_order) \<Rightarrow>
          bindE (vec_at a2 k) (\<lambda>it.
          bindE (at_int inz_count (fst it)) (\<lambda>pos.
          bindE (set_int inz_count (fst it) (pos + 1)) (\<lambda>inz_count1.
          bindE (set_int assigns2_order pos (int k)) (\<lambda>assigns2_order1.
          Inr (inz_count1, assigns2_order1))))))
       (inz_count0, replicate (length a2) 0)"

definition assigns2_order_of :: "(int \<times> int) list \<Rightarrow> nat \<Rightarrow> error + int list" where
  "assigns2_order_of a2 nin =
     bindE (count_inputs a2 nin) (\<lambda>c0.
     bindE (cumsum nin c0) (\<lambda>c1.
     bindE (place_assignments a2 c1) (\<lambda>s. Inr (snd s))))"

subsection \<open>evaluateMX: the collaborators\<close>

text \<open>
  The pattern operations and the constructors of expressions that \<open>evaluateMX\<close> calls
  are not in the source file; they are parameters of the embedding:
  \<open>MXNode::sparsity\<close>, \<open>CRSSparsity::getNZInplace\<close>, the two forms of \<open>sp_triplet\<close> (the
  second returns the mapping as well), \<open>MX::zeros\<close>, \<open>MX::create\<close> of a GetNonzeros
  node, a \<open>Mapping\<close> node with its optional \<open>assign(d, inz, onz, add)\<close>, and \<open>+=\<close> on
  expressions. Those that can throw return a result.
\<close>

record 'n externals =
  node_sparsity :: "'n \<Rightarrow> sparsity"
  getNZInplace :: "sparsity \<Rightarrow> int list \<Rightarrow> error + int list"
  sp_triplet :: "nat \<Rightarrow> nat \<Rightarrow> int list \<Rightarrow> int list \<Rightarrow> error + sparsity"
  sp_triplet_mapping :: "nat \<Rightarrow> nat \<Rightarrow> int list \<Rightarrow> int list \<Rightarrow> bool \<Rightarrow> error + (sparsity \<times> int list)"
  mx_zeros :: "sparsity \<Rightarrow> 'n option"
  mx_create :: "('n option) getnonzeros \<Rightarrow> 'n option"
  mx_mapping :: "sparsity \<Rightarrow> ('n option \<times> int list \<times> int list \<times> bool) option \<Rightarrow> error + 'n option"
  mx_plus :: "'n option \<Rightarrow> 'n option \<Rightarrow> error + 'n option"

text \<open>
  The driver hands pointers to expressions (\<open>MX*\<close>, possibly null); the store maps the
  address of an \<open>MX\<close> object to the handle it holds.
\<close>

type_synonym 'n mx_store = "nat \<Rightarrow> 'n option"

definition deref :: "'n mx_store \<Rightarrow> ptr \<Rightarrow> error + 'n option" where
  "deref st p = (case p of None \<Rightarrow> Inl NullPointer | Some a \<Rightarrow> Inr (st a))"

definition mx_sparsity :: "'n externals \<Rightarrow> 'n option \<Rightarrow> error + sparsity" where
  "mx_sparsity ext x = (case x of None \<Rightarrow> Inl NullPointer | Some n \<Rightarrow> Inr (node_sparsity ext n))"

subsection \<open>evaluateMX: the triplets\<close>

text \<open>\<open>vector<int> v(n); for(k...) v[k] = f(k);\<close>\<close>

fun tabulate :: "nat \<Rightarrow> (nat \<Rightarrow> error + 'a) \<Rightarrow> error + 'a list" where
  "tabulate 0 f = Inr []"
| "tabulate (Suc n) f = bindE (tabulate n f) (\<lambda>xs. bindE (f n) (\<lambda>x. Inr (xs @ [x])))"

text \<open>The dense position \<open>row[nz] + col[nz]*size1()\<close> of nonzero \<open>nz\<close> of a pattern.\<close>

definition element_of :: "sparsity \<Rightarrow> int \<Rightarrow> error + int" where
  "element_of sp nz =
     bindE (at_int (getRow sp) nz) (\<lambda>r.
     bindE (at_int (col sp) nz) (\<lambda>c. Inr (r + c * int (size1 sp))))"

definition el_wanted_of :: "sparsity \<Rightarrow> (int \<times> int) list \<Rightarrow> error + int list" where
  "el_wanted_of osp a2 =
     tabulate (length a2) (\<lambda>k. bindE (vec_at a2 k) (\<lambda>p. element_of osp (snd p)))"

definition el_known_of :: "sparsity \<Rightarrow> (int \<times> int) list \<Rightarrow> int list \<Rightarrow> error + int list" where
  "el_known_of isp a2 assigns2_order =
     tabulate (length a2) (\<lambda>k.
       bindE (vec_at assigns2_order k) (\<lambda>j.
       bindE (at_int a2 j) (\<lambda>p. element_of isp (fst p))))"

text \<open>
  The loop "Add to sparsity pattern": for every \<open>k\<close> with \<open>temp[k] != -1\<close>, push
  \<open>temp[k]\<close>, a column and a row. The result is \<open>(nonzeros, columns, rows)\<close>.
\<close>

definition add_to_pattern ::
  "nat \<Rightarrow> int list \<Rightarrow> (nat \<Rightarrow> error + int) \<Rightarrow> (nat \<Rightarrow> error + int) \<Rightarrow>
   error + (int list \<times> int list \<times> int list)" where
  "add_to_pattern n temp col_of row_of =
     for_loop n
       (\<lambda>k s. case s of (nz, cs, rs) \<Rightarrow>
          bindE (vec_at temp k) (\<lambda>t.
            if t \<noteq> - 1 then
              bindE (col_of k) (\<lambda>c. bindE (row_of k) (\<lambda>r. Inr (nz @ [t], cs @ [c], rs @ [r])))
            else Inr (nz, cs, rs)))
       ([], [], [])"

text \<open>\<open>ocol[assigns2_[assigns2_order[k]].second]\<close> and the like.\<close>

definition ordered_output :: "int list \<Rightarrow> (int \<times> int) list \<Rightarrow> int list \<Rightarrow> nat \<Rightarrow> error + int" where
  "ordered_output table a2 assigns2_order k =
     bindE (vec_at assigns2_order k) (\<lambda>j.
     bindE (at_int a2 j) (\<lambda>p. at_int table (snd p)))"

definition input_of :: "int list \<Rightarrow> (int \<times> int) list \<Rightarrow> nat \<Rightarrow> error + int" where
  "input_of table a2 k = bindE (vec_at a2 k) (\<lambda>p. at_int table (fst p))"

record sparse_triplets =
  r_row :: "int list"
  r_col :: "int list"
  r_inz :: "int list"
  f_row :: "int list list"
  f_col :: "int list list"
  f_inz :: "int list list"
  a_row :: "int list list"
  a_col :: "int list list"
  a_onz :: "int list list"

definition no_triplets :: "nat \<Rightarrow> nat \<Rightarrow> sparse_triplets" where
  "no_triplets nfwd nadj =
     \<lparr>r_row = [], r_col = [], r_inz = [],
      f_row = replicate nfwd [], f_col = replicate nfwd [], f_inz = replicate nfwd [],
      a_row = replicate nadj [], a_col = replicate nadj [], a_onz = replicate nadj []\<rparr>"

text \<open>
  The block "For all outputs": nothing is collected when \<open>output[0]\<close> or \<open>input[0]\<close> is
  null. The seeds are dereferenced without a test.
\<close>

definition evaluateMX_triplets ::
  "'n externals \<Rightarrow> ('n option) getnonzeros \<Rightarrow> ptr list \<Rightarrow> ptr list \<Rightarrow> ptr list list \<Rightarrow> nat \<Rightarrow>
   ptr list list \<Rightarrow> nat \<Rightarrow> bool \<Rightarrow> 'n mx_store \<Rightarrow> error + sparse_triplets" where
  "evaluateMX_triplets ext node input output fwdSeed nfwd adjSeed nadj output_given st =
     bindE (vec_at output 0) (\<lambda>q. case q of None \<Rightarrow> Inr (no_triplets nfwd nadj) | Some outp \<Rightarrow>
     bindE (vec_at input 0) (\<lambda>i. case i of None \<Rightarrow> Inr (no_triplets nfwd nadj) | Some inp \<Rightarrow>
       let osp = sparsity node; a2 = assigns2 node; n = length (assigns2 node) in
       bindE (dep_sparsity (node_sparsity ext) node) (\<lambda>isp.
       bindE (el_wanted_of osp a2) (\<lambda>el_wanted.
       bindE (assigns2_order_of a2 (length (col isp))) (\<lambda>assigns2_order.
       bindE (el_known_of isp a2 assigns2_order) (\<lambda>el_known.
       bindE (if \<not> output_given then
                bindE (mx_sparsity ext (st inp)) (\<lambda>sp.
                bindE (getNZInplace ext sp el_known) (\<lambda>temp.
                add_to_pattern n temp (ordered_output (col osp) a2 assigns2_order)
                  (ordered_output (getRow osp) a2 assigns2_order)))
              else Inr ([], [], [])) (\<lambda>r.
       bindE (tabulate nfwd (\<lambda>d.
                bindE (vec_at fwdSeed d) (\<lambda>sd. bindE (vec_at sd 0) (\<lambda>p.
                bindE (deref st p) (\<lambda>x. bindE (mx_sparsity ext x) (\<lambda>sp.
                bindE (getNZInplace ext sp el_known) (\<lambda>temp.
                add_to_pattern n temp (ordered_output (col osp) a2 assigns2_order)
                  (ordered_output (getRow osp) a2 assigns2_order)))))))) (\<lambda>f.
       bindE (tabulate nadj (\<lambda>d.
                bindE (vec_at adjSeed d) (\<lambda>sd. bindE (vec_at sd 0) (\<lambda>p.
                bindE (deref st p) (\<lambda>x. bindE (mx_sparsity ext x) (\<lambda>sp.
                bindE (getNZInplace ext sp el_wanted) (\<lambda>temp.
                add_to_pattern n temp (input_of (col isp) a2) (input_of (getRow isp) a2)))))))) (\<lambda>a.
       Inr \<lparr>r_row = snd (snd r), r_col = fst (snd r), r_inz = fst r,
            f_row = map (\<lambda>t. snd (snd t)) f, f_col = map (\<lambda>t. fst (snd t)) f, f_inz = map fst f,
            a_row = map (\<lambda>t. snd (snd t)) a, a_col = map (\<lambda>t. fst (snd t)) a,
            a_onz = map fst a\<rparr>)))))))))"

subsection \<open>evaluateMX: the new expressions\<close>

text \<open>
  A gather of \<open>*src\<close> with the table \<open>inz\<close> over the pattern \<open>sp\<close>, stored in \<open>*dst\<close>, or the
  zero expression when \<open>inz\<close> is empty. The new node is stored first and the source
  is read afterwards, as in \<open>*dst = MX::create(...); (*dst)->assign(*src, inz);\<close>.
\<close>

definition store_gather ::
  "'n externals \<Rightarrow> sparsity \<Rightarrow> nat \<Rightarrow> nat \<Rightarrow> int list \<Rightarrow> 'n mx_store \<Rightarrow> error + 'n mx_store" where
  "store_gather ext sp dst src inz st =
     (if inz \<noteq> [] then
        let st1 = st(dst := mx_create ext (GetNonzeros sp)) in
        bindE (assign (st1 src) inz False (GetNonzeros sp)) (\<lambda>nd. Inr (st1(dst := mx_create ext nd)))
      else Inr (st(dst := mx_zeros ext sp)))"

text \<open>The block "Non-differentiated output".\<close>

definition evaluateMX_output ::
  "'n externals \<Rightarrow> ('n option) getnonzeros \<Rightarrow> ptr list \<Rightarrow> ptr list \<Rightarrow> bool \<Rightarrow> sparse_triplets \<Rightarrow>
   'n mx_store \<Rightarrow> error + 'n mx_store" where
  "evaluateMX_output ext node input output output_given tr st =
     (if \<not> output_given then
        bindE (vec_at output 0) (\<lambda>q. case q of None \<Rightarrow> Inr st | Some outp \<Rightarrow>
          bindE (sp_triplet ext (size1 (sparsity node)) (size2 (sparsity node)) (r_row tr) (r_col tr))
            (\<lambda>r_sp.
          bindE (vec_at input 0) (\<lambda>i. case i of
              None \<Rightarrow> Inr (st(outp := mx_zeros ext r_sp))
            | Some inp \<Rightarrow> store_gather ext r_sp outp inp (r_inz tr) st)))
      else Inr st)"

text \<open>Direction \<open>d\<close> of "Create the forward sensitivity matrices".\<close>

definition evaluateMX_forward ::
  "'n externals \<Rightarrow> ('n option) getnonzeros \<Rightarrow> ptr list \<Rightarrow> ptr list \<Rightarrow> ptr list list \<Rightarrow> ptr list list \<Rightarrow>
   sparse_triplets \<Rightarrow> nat \<Rightarrow> 'n mx_store \<Rightarrow> error + 'n mx_store" where
  "evaluateMX_forward ext node input output fwdSeed fwdSens tr d st =
     bindE (vec_at output 0) (\<lambda>q. case q of None \<Rightarrow> Inr st | Some outp \<Rightarrow>
       bindE (vec_at (f_row tr) d) (\<lambda>rows. bindE (vec_at (f_col tr) d) (\<lambda>cols.
       bindE (sp_triplet ext (size1 (sparsity node)) (size2 (sparsity node)) rows cols) (\<lambda>f_sp.
       bindE (vec_at fwdSens d) (\<lambda>sn. bindE (vec_at sn 0) (\<lambda>p. case p of
           None \<Rightarrow> Inl NullPointer
         | Some sens \<Rightarrow>
             bindE (vec_at input 0) (\<lambda>i. case i of
                 None \<Rightarrow> Inr (st(sens := mx_zeros ext f_sp))
               | Some inp \<Rightarrow>
                   bindE (vec_at (f_inz tr) d) (\<lambda>inz.
                     if inz \<noteq> [] then
                       bindE (vec_at fwdSeed d) (\<lambda>sd. bindE (vec_at sd 0) (\<lambda>ps. case ps of
                           None \<Rightarrow> Inl NullPointer
                         | Some seed \<Rightarrow> store_gather ext f_sp sens seed inz st))
                     else Inr (st(sens := mx_zeros ext f_sp))))))))))"

text \<open>
  Direction \<open>d\<close> of "Create the adjoint sensitivity matrices", first part: the scatter
  node \<open>s\<close> added to \<open>*adjSens[d][0]\<close>, when \<open>input[0]\<close> is not null.
\<close>

definition adjoint_sensitivity ::
  "'n externals \<Rightarrow> ptr list \<Rightarrow> ptr list \<Rightarrow> ptr list list \<Rightarrow> ptr list list \<Rightarrow>
   sparse_triplets \<Rightarrow> nat \<Rightarrow> 'n mx_store \<Rightarrow> error + 'n mx_store" where
  "adjoint_sensitivity ext input output adjSeed adjSens tr d st =
     bindE (vec_at input 0) (\<lambda>i. case i of None \<Rightarrow> Inr st | Some inp \<Rightarrow>
       bindE (mx_sparsity ext (st inp)) (\<lambda>isp.
       bindE (vec_at (a_row tr) d) (\<lambda>rows. bindE (vec_at (a_col tr) d) (\<lambda>cols.
       bindE (sp_triplet_mapping ext (size1 isp) (size2 isp) rows cols True) (\<lambda>m.
       bindE (vec_at output 0) (\<lambda>q.
       bindE (case q of
                None \<Rightarrow> mx_mapping ext (fst m) None
              | Some outp \<Rightarrow>
                  bindE (vec_at adjSeed d) (\<lambda>sd. bindE (vec_at sd 0) (\<lambda>ps.
                  bindE (deref st ps) (\<lambda>seed.
                  bindE (vec_at (a_onz tr) d) (\<lambda>onz.
                  mx_mapping ext (fst m) (Some (seed, onz, onz, True))))))) (\<lambda>s.
       bindE (vec_at adjSens d) (\<lambda>sn. bindE (vec_at sn 0) (\<lambda>p. case p of
           None \<Rightarrow> Inl NullPointer
         | Some sens \<Rightarrow> bindE (mx_plus ext (st sens) s) (\<lambda>v. Inr (st(sens := v))))))))))))"

text \<open>Second part, "Clear adjoint seeds": \<open>if(adjSeed[d][0] != 0) *adjSeed[d][0] = MX();\<close>\<close>

definition clear_adjoint_seed :: "ptr list list \<Rightarrow> nat \<Rightarrow> 'n mx_store \<Rightarrow> error + 'n mx_store" where
  "clear_adjoint_seed adjSeed d st =
     bindE (vec_at adjSeed d) (\<lambda>sd. bindE (vec_at sd 0) (\<lambda>p. case p of
         None \<Rightarrow> Inr st
       | Some seed \<Rightarrow> Inr (st(seed := None))))"

definition evaluateMX_adjoint ::
  "'n externals \<Rightarrow> ptr list \<Rightarrow> ptr list \<Rightarrow> ptr list list \<Rightarrow> ptr list list \<Rightarrow>
   sparse_triplets \<Rightarrow> nat \<Rightarrow> 'n mx_store \<Rightarrow> error + 'n mx_store" where
  "evaluateMX_adjoint ext input output adjSeed adjSens tr d st =
     bindE (adjoint_sensitivity ext input output adjSeed adjSens tr d st) (clear_adjoint_seed adjSeed d)"

text \<open>The whole function, with \<open>nfwd = fwdSens.size()\<close> and \<open>nadj = adjSeed.size()\<close>.\<close>

definition evaluateMX ::
  "'n externals \<Rightarrow> ('n option) getnonzeros \<Rightarrow> ptr list \<Rightarrow> ptr list \<Rightarrow> ptr list list \<Rightarrow> ptr list list \<Rightarrow>
   ptr list list \<Rightarrow> ptr list list \<Rightarrow> bool \<Rightarrow> 'n mx_store \<Rightarrow> error + 'n mx_store" where
  "evaluateMX ext node input output fwdSeed fwdSens adjSeed adjSens output_given st =
     (if length input \<noteq> 1 then Inl InputArity
      else
        bindE (evaluateMX_triplets ext node input output fwdSeed (length fwdSens) adjSeed
                 (length adjSeed) output_given st) (\<lambda>tr.
        bindE (evaluateMX_output ext node input output output_given tr st) (\<lambda>st1.
        bindE (for_loop (length fwdSens) (evaluateMX_forward ext node input output fwdSeed fwdSens tr) st1)
          (\<lambda>st2.
        for_loop (length adjSeed) (evaluateMX_adjoint ext input output adjSeed adjSens tr) st2))))"

subsection \<open>The grouped order, as a specification\<close>

text \<open>
  Not from the source: the functions in which the result of the three loops is stated.
  \<open>bucket a2 i\<close> lists, in increasing order, the positions \<open>k\<close> of the pairs whose input
  nonzero is \<open>i\<close>; \<open>seen a2 m i\<close> counts those below \<open>m\<close>; \<open>offset a2 i\<close> is the number of
  pairs in the buckets below \<open>i\<close>; \<open>grouped_by_input xs m\<close> is the list of the pairs with
  input nonzero 0, then 1, ..., then \<open>m - 1\<close>, each group in the order of \<open>xs\<close>.
\<close>

definition bucket :: "(int \<times> int) list \<Rightarrow> nat \<Rightarrow> nat list" where
  "bucket a2 i = filter (\<lambda>k. fst (a2 ! k) = int i) [0..<length a2]"

definition seen :: "(int \<times> int) list \<Rightarrow> nat \<Rightarrow> nat \<Rightarrow> nat" where
  "seen a2 m i = length (filter (\<lambda>k. fst (a2 ! k) = int i) [0..<m])"

definition offset :: "(int \<times> int) list \<Rightarrow> nat \<Rightarrow> nat" where
  "offset a2 i = length (concat (map (bucket a2) [0..<i]))"

definition grouped_by_input :: "(int \<times> int) list \<Rightarrow> nat \<Rightarrow> (int \<times> int) list" where
  "grouped_by_input xs m = concat (map (\<lambda>i. filter (\<lambda>p. fst p = int i) xs) [0..<m])"

subsection \<open>A worked example\<close>

text \<open>
  The end-to-end scenario of the specification: a dependency with four nonzeros
  \<open>[10,20,30,40]\<close> and \<open>assigns = [3,1]\<close> over a 1-by-2 output. Buffer 0 is the input,
  buffer 1 the output, buffer 2 the input adjoint and buffer 3 the adjoint seed.
\<close>

definition example_node :: "unit getnonzeros" where
  "example_node = \<lparr>sparsity = \<lparr>size1 = 1, size2 = 2, col = [0, 1], rowind = [0, 2]\<rparr>,
     assigns = [3, 1], assigns2 = [(3, 0), (1, 1)], dep = [()]\<rparr>"

definition example_store :: "real store" where
  "example_store = (\<lambda>_. [])(0 := [10, 20, 30, 40], 1 := [0, 0], 2 := [0, 0, 0, 0], 3 := [5, 7])"

definition example_taint :: "bvec_t store" where
  "example_taint = (\<lambda>_. [])(0 := [1, 2, 4, 8], 1 := [16, 32])"

text \<open>
  A three-nonzero row pattern and the identity selection over it; a leaf node is
  represented by its pattern.
\<close>

definition example_pattern :: sparsity where
  "example_pattern = \<lparr>size1 = 1, size2 = 3, col = [0, 1, 2], rowind = [0, 3]\<rparr>"

definition example_identity :: "(sparsity option) getnonzeros" where
  "example_identity = \<lparr>sparsity = example_pattern, assigns = [0, 1, 2],
     assigns2 = [(0, 0), (1, 1), (2, 2)], dep = [Some example_pattern]\<rparr>"

text \<open>
  An instance of the collaborators, to run \<open>evaluateMX\<close> on the example. Modelled from
  the spec: expressions are terms that carry their pattern; \<open>getNZInplace\<close> replaces the
  dense position of an element by its nonzero index, or by -1 when the pattern has no
  such element; \<open>sp_triplet\<close> builds the compressed-row pattern of a list of coordinates
  and refuses a coordinate outside the matrix. Buffer 0 holds the input expression,
  1 the output, 2 and 4 the adjoint sensitivities, 3 and 5 the adjoint seeds.
\<close>

datatype expr =
    Leaf sparsity
  | ZerosOf sparsity
  | Gather sparsity "int list" "expr option list"
  | Scatter sparsity "(expr option \<times> int list \<times> int list \<times> bool) option"
  | AddTo sparsity "expr option" "expr option"

fun expr_sparsity :: "expr \<Rightarrow> sparsity" where
  "expr_sparsity (Leaf sp) = sp"
| "expr_sparsity (ZerosOf sp) = sp"
| "expr_sparsity (Gather sp inz ds) = sp"
| "expr_sparsity (Scatter sp a) = sp"
| "expr_sparsity (AddTo sp x y) = sp"

definition elements :: "sparsity \<Rightarrow> int list" where
  "elements sp = map (\<lambda>k. getRow sp ! k + col sp ! k * int (size1 sp)) [0..<sp_size sp]"

definition example_getNZ :: "sparsity \<Rightarrow> int list \<Rightarrow> error + int list" where
  "example_getNZ sp els =
     Inr (map (\<lambda>el. if el \<in> set (elements sp)
                     then int (length (takeWhile (\<lambda>x. x \<noteq> el) (elements sp))) else - 1) els)"

definition coordinates :: "nat \<Rightarrow> nat \<Rightarrow> int list \<Rightarrow> int list \<Rightarrow> (nat \<times> nat) list" where
  "coordinates n1 n2 rows cols =
     concat (map (\<lambda>r. map (\<lambda>c. (r, c))
       (filter (\<lambda>c. (int r, int c) \<in> set (zip rows cols)) [0..<n2])) [0..<n1])"

definition example_sp_triplet :: "nat \<Rightarrow> nat \<Rightarrow> int list \<Rightarrow> int list \<Rightarrow> error + sparsity" where
  "example_sp_triplet n1 n2 rows cols =
     (if length rows \<noteq> length cols \<or>
         (\<exists>p\<in>set (zip rows cols). \<not> (0 \<le> fst p \<and> fst p < int n1 \<and> 0 \<le> snd p \<and> snd p < int n2))
      then Inl InvalidCoordinate
      else Inr \<lparr>size1 = n1, size2 = n2,
                col = map (\<lambda>p. int (snd p)) (coordinates n1 n2 rows cols),
                rowind = map (\<lambda>r. length (filter (\<lambda>p. fst p < r) (coordinates n1 n2 rows cols)))
                           [0..<Suc n1]\<rparr>)"

definition example_externals :: "expr externals" where
  "example_externals =
     \<lparr>node_sparsity = expr_sparsity,
      getNZInplace = example_getNZ,
      sp_triplet = example_sp_triplet,
      sp_triplet_mapping = (\<lambda>n1 n2 rows cols invert.
         bindE (example_sp_triplet n1 n2 rows cols) (\<lambda>sp.
           Inr (sp, map (\<lambda>p. int (length (takeWhile (\<lambda>q. (int (fst q), int (snd q)) \<noteq> p)
                                      (coordinates n1 n2 rows cols)))) (zip rows cols)))),
      mx_zeros = (\<lambda>sp. Some (ZerosOf sp)),
      mx_create = (\<lambda>nd. Some (Gather (sparsity nd) (assigns nd) (dep nd))),
      mx_mapping = (\<lambda>sp a. Inr (Some (Scatter sp a))),
      mx_plus = (\<lambda>x y. Inr (case y of None \<Rightarrow> x | Some e \<Rightarrow> Some (AddTo (expr_sparsity e) x y)))\<rparr>"

definition example_input_pattern :: sparsity where
  "example_input_pattern = \<lparr>size1 = 1, size2 = 4, col = [0, 1, 2, 3], rowind = [0, 4]\<rparr>"

definition example_output_pattern :: sparsity where
  "example_output_pattern = \<lparr>size1 = 1, size2 = 2, col = [0, 1], rowind = [0, 2]\<rparr>"

definition example_mx_node :: "(expr option) getnonzeros" where
  "example_mx_node = \<lparr>sparsity = example_output_pattern, assigns = [3, 1],
     assigns2 = [(3, 0), (1, 1)], dep = [Some (Leaf example_input_pattern)]\<rparr>"

definition example_mx_store :: "expr mx_store" where
  "example_mx_store = (\<lambda>_. None)(0 := Some (Leaf example_input_pattern),
     2 := Some (ZerosOf example_input_pattern), 3 := Some (Leaf example_output_pattern),
     4 := Some (ZerosOf example_input_pattern), 5 := Some (Leaf example_output_pattern))"

section \<open>Verification\<close>

subsection \<open>The gather and accumulate loops\<close>

lemma bindE_Inr: "bindE (Inr x) f = f x"
  by (simp add: bindE_def)

lemma bindE_Inl: "bindE (Inl e) f = Inl e"
  by (simp add: bindE_def)

lemma update_prefix_drop:
  assumes "length xs = m" and "m < length ys"
  shows "(xs @ drop m ys)[m := v] = (xs @ [v]) @ drop (Suc m) ys"
proof -
  have "drop m ys = ys ! m # drop (Suc m) ys"
    using assms(2) by (simp add: Cons_nth_drop_Suc)
  then show ?thesis
    using assms(1) by (simp add: list_update_append)
qed

lemma for_loop_gather:
  assumes "src \<noteq> dst"
    and "\<forall>k<length a. 0 \<le> a ! k \<and> nat (a ! k) < length (st src)"
    and "m \<le> length a"
    and "length a \<le> length (st dst)"
  shows "for_loop m (gather_body a src dst) st =
         Inr (st(dst := map (\<lambda>k. st src ! nat (a ! k)) [0..<m] @ drop m (st dst)))"
  using assms(3)
proof (induction m)
  case 0
  then show ?case by (simp add: bindE_Inr)
next
  case (Suc m)
  let ?xs = "map (\<lambda>k. st src ! nat (a ! k)) [0..<m]"
  let ?stm = "st(dst := ?xs @ drop m (st dst))"
  have m: "m < length a" "m < length (st dst)"
    using Suc.prems assms(4) by simp_all
  have run: "for_loop m (gather_body a src dst) st = Inr ?stm"
    by (rule Suc.IH) (use Suc.prems in simp)
  have rng: "0 \<le> a ! m" "nat (a ! m) < length (st src)"
    using assms(2) m(1) by simp_all
  have body: "gather_body a src dst m ?stm =
      Inr (?stm(dst := (?xs @ drop m (st dst))[m := st src ! nat (a ! m)]))"
    using assms(1) m rng
    by (simp add: gather_body_def vec_at_def data_get_def data_set_def at_int_def set_int_def
        bindE_Inr)
  have "(?xs @ drop m (st dst))[m := st src ! nat (a ! m)] =
        (?xs @ [st src ! nat (a ! m)]) @ drop (Suc m) (st dst)"
    using m(2) by (intro update_prefix_drop) simp_all
  then have upd: "(?xs @ drop m (st dst))[m := st src ! nat (a ! m)] =
        map (\<lambda>k. st src ! nat (a ! k)) [0..<Suc m] @ drop (Suc m) (st dst)"
    by simp
  have "for_loop (Suc m) (gather_body a src dst) st = gather_body a src dst m ?stm"
    by (simp only: for_loop.simps run bindE_Inr)
  also have "\<dots> = Inr (st(dst := (?xs @ drop m (st dst))[m := st src ! nat (a ! m)]))"
    by (simp only: body fun_upd_upd)
  finally show ?case
    by (simp only: upd)
qed

lemma for_loop_accumulate:
  assumes "seed \<noteq> sens"
    and "\<forall>k<length a. 0 \<le> a ! k \<and> nat (a ! k) < length (st sens)"
    and "m \<le> length a"
    and "length a \<le> length (st seed)"
  shows "for_loop m (accumulate_body add zero a seed sens) st =
         Inr (st(seed := replicate m zero @ drop m (st seed),
                 sens := map (\<lambda>j. foldl add (st sens ! j)
                            (map (\<lambda>k. st seed ! k) (filter (\<lambda>k. a ! k = int j) [0..<m]))) [0..<length (st sens)]))"
  using assms(3)
proof (induction m)
  case 0
  have "map (\<lambda>j. st sens ! j) [0..<length (st sens)] = st sens"
    by (simp add: map_nth)
  then show ?case by (simp add: bindE_Inr)
next
  case (Suc m)
  let ?F = "\<lambda>m j. foldl add (st sens ! j) (map (\<lambda>k. st seed ! k) (filter (\<lambda>k. a ! k = int j) [0..<m]))"
  let ?L = "length (st sens)"
  let ?zs = "replicate m zero"
  let ?stm = "st(seed := ?zs @ drop m (st seed), sens := map (?F m) [0..<?L])"
  have m: "m < length a" "m < length (st seed)"
    using Suc.prems assms(4) by simp_all
  have run: "for_loop m (accumulate_body add zero a seed sens) st = Inr ?stm"
    by (rule Suc.IH) (use Suc.prems in simp)
  have rng: "0 \<le> a ! m" "nat (a ! m) < ?L"
    using assms(2) m(1) by simp_all
  have seedm: "(?zs @ drop m (st seed)) ! m = st seed ! m"
    using m(2) by (simp add: nth_append)
  have body: "accumulate_body add zero a seed sens m ?stm =
      Inr (?stm(sens := (map (?F m) [0..<?L])[nat (a ! m) := add (?F m (nat (a ! m))) (st seed ! m)],
                seed := (?zs @ drop m (st seed))[m := zero]))"
    using assms(1) m rng seedm
    by (simp add: accumulate_body_def vec_at_def data_get_def data_set_def at_int_def set_int_def
        bindE_Inr)
  have seed': "(?zs @ drop m (st seed))[m := zero] = replicate (Suc m) zero @ drop (Suc m) (st seed)"
    using update_prefix_drop [of ?zs m "st seed" zero] m(2)
    by (simp add: replicate_append_same)
  have sens': "(map (?F m) [0..<?L])[nat (a ! m) := add (?F m (nat (a ! m))) (st seed ! m)] =
               map (?F (Suc m)) [0..<?L]"
  proof (rule nth_equalityI)
    show "length ((map (?F m) [0..<?L])[nat (a ! m) := add (?F m (nat (a ! m))) (st seed ! m)]) =
          length (map (?F (Suc m)) [0..<?L])"
      by simp
  next
    fix j
    assume "j < length ((map (?F m) [0..<?L])[nat (a ! m) := add (?F m (nat (a ! m))) (st seed ! m)])"
    then have j: "j < ?L" by simp
    show "(map (?F m) [0..<?L])[nat (a ! m) := add (?F m (nat (a ! m))) (st seed ! m)] ! j =
          map (?F (Suc m)) [0..<?L] ! j"
    proof (cases "j = nat (a ! m)")
      case True
      then have "a ! m = int j" using rng(1) by simp
      then show ?thesis using j True by simp
    next
      case False
      then have "a ! m \<noteq> int j" by auto
      then show ?thesis using j False by simp
    qed
  qed
  have "for_loop (Suc m) (accumulate_body add zero a seed sens) st =
        accumulate_body add zero a seed sens m ?stm"
    by (simp only: for_loop.simps run bindE_Inr)
  also have "\<dots> = Inr (?stm(sens := map (?F (Suc m)) [0..<?L],
                seed := replicate (Suc m) zero @ drop (Suc m) (st seed)))"
    by (simp only: body seed' sens')
  also have "\<dots> = Inr (st(seed := replicate (Suc m) zero @ drop (Suc m) (st seed),
                 sens := map (?F (Suc m)) [0..<?L]))"
    using assms(1) by (simp only: fun_upd_upd fun_upd_twist [of seed sens] sum.inject) auto
  finally show ?case .
qed


text \<open>
  \<open>evaluateGen\<close> is the primal step when no direction is requested, and one adjoint
  step when there is one adjoint direction and no primal input.
\<close>

lemma evaluateGen_primal_only:
  fixes st :: "('a::{plus,zero}) store"
  assumes "length input = 1"
  shows "evaluateGen node input output [] [] [] [] st = evaluate_primal node input output st"
  using assms by (cases "evaluate_primal node input output st") (simp_all add: evaluateGen_def bindE_def)

lemma evaluateGen_one_adjoint:
  fixes st :: "('a::{plus,zero}) store"
  shows "evaluateGen node [None] output [] [] [sd] [sn] st = evaluate_adjoint node [sd] [sn] 0 st"
  by (simp add: evaluateGen_def evaluate_primal_def vec_at_def bindE_def)

lemma foldl_add_zeros:
  fixes x :: "'a::monoid_add"
  shows "foldl (+) x (map (\<lambda>k. replicate n 0 ! k) (filter P [0..<n])) = x"
proof -
  have "\<forall>k\<in>set ks. k < n \<Longrightarrow> foldl (+) x (map (\<lambda>k. replicate n (0::'a) ! k) ks) = x" for ks
    by (induction ks arbitrary: x) simp_all
  then show ?thesis by simp
qed

text \<open>
  Claim C1. With both primal buffers present (two different matrices, the output as long
  as \<open>assigns_\<close>, every entry of \<open>assigns_\<close> a nonzero of the input), the primal step
  returns and leaves \<open>out[k] = in[assigns_[k]]\<close> for every output nonzero \<open>k\<close>, touching no
  other buffer. With the input or the output pointer null it returns the store as it
  was, without an error.
\<close>

theorem primal_evaluation:
  fixes st :: "'a store" and node :: "'d getnonzeros"
  shows "(input \<noteq> [] \<and> input ! 0 = Some i \<and> output \<noteq> [] \<and> output ! 0 = Some q \<and> i \<noteq> q \<and>
          length (st q) = length (assigns node) \<and>
          (\<forall>k<length (assigns node). 0 \<le> assigns node ! k \<and> nat (assigns node ! k) < length (st i))
          \<longrightarrow> (\<exists>st'. evaluate_primal node input output st = Inr st' \<and>
                (\<forall>k<length (assigns node). st' q ! k = st i ! nat (assigns node ! k)) \<and>
                length (st' q) = length (st q) \<and> (\<forall>p. p \<noteq> q \<longrightarrow> st' p = st p)))
       \<and> (input \<noteq> [] \<and> (input ! 0 = None \<or> output \<noteq> [] \<and> output ! 0 = None)
          \<longrightarrow> evaluate_primal node input output st = Inr st)"
proof (intro conjI impI)
  assume h: "input \<noteq> [] \<and> input ! 0 = Some i \<and> output \<noteq> [] \<and> output ! 0 = Some q \<and> i \<noteq> q \<and>
          length (st q) = length (assigns node) \<and>
          (\<forall>k<length (assigns node). 0 \<le> assigns node ! k \<and> nat (assigns node ! k) < length (st i))"
  let ?n = "length (assigns node)"
  let ?st' = "st(q := map (\<lambda>k. st i ! nat (assigns node ! k)) [0..<?n] @ drop ?n (st q))"
  have "for_loop ?n (gather_body (assigns node) i q) st = Inr ?st'"
    using h by (intro for_loop_gather) simp_all
  then have "evaluate_primal node input output st = Inr ?st'"
    using h by (simp add: evaluate_primal_def vec_at_def bindE_Inr)
  moreover have "\<forall>k<?n. ?st' q ! k = st i ! nat (assigns node ! k)"
    by (simp add: nth_append)
  moreover have "length (?st' q) = length (st q)"
    using h by simp
  moreover have "\<forall>p. p \<noteq> q \<longrightarrow> ?st' p = st p"
    by simp
  ultimately show "\<exists>st'. evaluate_primal node input output st = Inr st' \<and>
                (\<forall>k<length (assigns node). st' q ! k = st i ! nat (assigns node ! k)) \<and>
                length (st' q) = length (st q) \<and> (\<forall>p. p \<noteq> q \<longrightarrow> st' p = st p)"
    by blast
next
  assume "input \<noteq> [] \<and> (input ! 0 = None \<or> output \<noteq> [] \<and> output ! 0 = None)"
  then show "evaluate_primal node input output st = Inr st"
    by (auto simp: evaluate_primal_def vec_at_def bindE_Inr split: option.splits)
qed

lemma evaluate_adjoint_run:
  fixes st :: "('a::{plus,zero}) store" and node :: "'d getnonzeros"
  assumes "d < length adjSeed" "adjSeed ! d \<noteq> []" "adjSeed ! d ! 0 = Some seed"
    and "d < length adjSens" "adjSens ! d \<noteq> []" "adjSens ! d ! 0 = Some sens"
    and "seed \<noteq> sens" "length (st seed) = length (assigns node)"
    and "\<forall>k<length (assigns node). 0 \<le> assigns node ! k \<and> nat (assigns node ! k) < length (st sens)"
  shows "evaluate_adjoint node adjSeed adjSens d st =
         Inr (st(seed := replicate (length (assigns node)) 0,
                 sens := map (\<lambda>j. foldl (+) (st sens ! j)
                     (map (\<lambda>k. st seed ! k) (filter (\<lambda>k. assigns node ! k = int j) [0..<length (assigns node)])))
                   [0..<length (st sens)]))"
proof -
  let ?n = "length (assigns node)"
  have "for_loop ?n (accumulate_body (+) 0 (assigns node) seed sens) st =
        Inr (st(seed := replicate ?n 0 @ drop ?n (st seed),
                 sens := map (\<lambda>j. foldl (+) (st sens ! j)
                     (map (\<lambda>k. st seed ! k) (filter (\<lambda>k. assigns node ! k = int j) [0..<?n]))) [0..<length (st sens)]))"
    using assms by (intro for_loop_accumulate) simp_all
  then show ?thesis
    using assms by (simp add: evaluate_adjoint_def vec_at_def bindE_Inr)
qed

text \<open>
  Claim C2. For a direction whose seed and sensitivity buffers are present (and are two
  different matrices), the adjoint step adds, in index order, every \<open>outAdjoint[k]\<close> with
  \<open>assigns_[k] = j\<close> to \<open>inAdjoint[j]\<close> and leaves the seed all zero. With
  \<open>assigns_ = [0,0,0]\<close> and seed \<open>[1,2,3]\<close> input adjoint 0 grows by 6.
\<close>

theorem adjoint_accumulate_then_clear:
  fixes st :: "('a::{plus,zero}) store" and node :: "'d getnonzeros" and sr :: "real store"
  shows "(d < length adjSeed \<and> adjSeed ! d \<noteq> [] \<and> adjSeed ! d ! 0 = Some seed \<and>
          d < length adjSens \<and> adjSens ! d \<noteq> [] \<and> adjSens ! d ! 0 = Some sens \<and>
          seed \<noteq> sens \<and> length (st seed) = length (assigns node) \<and>
          (\<forall>k<length (assigns node). 0 \<le> assigns node ! k \<and> nat (assigns node ! k) < length (st sens))
          \<longrightarrow> (\<exists>st'. evaluate_adjoint node adjSeed adjSens d st = Inr st' \<and>
                (\<forall>j<length (st sens). st' sens ! j = foldl (+) (st sens ! j)
                     (map (\<lambda>k. st seed ! k) (filter (\<lambda>k. assigns node ! k = int j) [0..<length (assigns node)]))) \<and>
                length (st' sens) = length (st sens) \<and>
                st' seed = replicate (length (assigns node)) 0 \<and>
                (\<forall>p. p \<noteq> seed \<and> p \<noteq> sens \<longrightarrow> st' p = st p)))
       \<and> (assigns node = [0, 0, 0] \<and> sr 1 = [1, 2, 3] \<and> sr 0 = [x]
          \<longrightarrow> (\<exists>sr'. evaluate_adjoint node [[Some 1]] [[Some 0]] 0 sr = Inr sr' \<and>
                sr' 0 = [x + 6] \<and> sr' 1 = [0, 0, 0]))"
proof (intro conjI impI)
  assume h: "d < length adjSeed \<and> adjSeed ! d \<noteq> [] \<and> adjSeed ! d ! 0 = Some seed \<and>
          d < length adjSens \<and> adjSens ! d \<noteq> [] \<and> adjSens ! d ! 0 = Some sens \<and>
          seed \<noteq> sens \<and> length (st seed) = length (assigns node) \<and>
          (\<forall>k<length (assigns node). 0 \<le> assigns node ! k \<and> nat (assigns node ! k) < length (st sens))"
  have "evaluate_adjoint node adjSeed adjSens d st =
         Inr (st(seed := replicate (length (assigns node)) 0,
                 sens := map (\<lambda>j. foldl (+) (st sens ! j)
                     (map (\<lambda>k. st seed ! k) (filter (\<lambda>k. assigns node ! k = int j) [0..<length (assigns node)])))
                   [0..<length (st sens)]))"
    using h by (intro evaluate_adjoint_run) simp_all
  then show "\<exists>st'. evaluate_adjoint node adjSeed adjSens d st = Inr st' \<and>
                (\<forall>j<length (st sens). st' sens ! j = foldl (+) (st sens ! j)
                     (map (\<lambda>k. st seed ! k) (filter (\<lambda>k. assigns node ! k = int j) [0..<length (assigns node)]))) \<and>
                length (st' sens) = length (st sens) \<and>
                st' seed = replicate (length (assigns node)) 0 \<and>
                (\<forall>p. p \<noteq> seed \<and> p \<noteq> sens \<longrightarrow> st' p = st p)"
    using h by simp
next
  assume h: "assigns node = [0, 0, 0] \<and> sr 1 = [1, 2, 3] \<and> sr 0 = [x]"
  have "evaluate_adjoint node [[Some 1]] [[Some 0]] 0 sr =
         Inr (sr(1 := replicate (length (assigns node)) 0,
                 0 := map (\<lambda>j. foldl (+) (sr 0 ! j)
                     (map (\<lambda>k. sr 1 ! k) (filter (\<lambda>k. assigns node ! k = int j) [0..<length (assigns node)])))
                   [0..<length (sr 0)]))"
    using h by (intro evaluate_adjoint_run) (simp_all add: nth_Cons')
  moreover have "[0..<3] = [0, 1, 2]"
    by (simp add: upt_rec)
  ultimately show "\<exists>sr'. evaluate_adjoint node [[Some 1]] [[Some 0]] 0 sr = Inr sr' \<and>
                sr' 0 = [x + 6] \<and> sr' 1 = [0, 0, 0]"
    using h by (simp add: numeral_3_eq_3)
qed

text \<open>
  Claim C5. Two adjoint steps in a row on the same pair of different buffers leave the
  input adjoint buffer (and the whole store) as one step does: the first step zeroes
  the seed. The element type is any monoid under addition.
\<close>

theorem adjoint_twice_is_once:
  fixes st :: "('a::monoid_add) store" and node :: "'d getnonzeros"
  assumes "d < length adjSeed" "adjSeed ! d \<noteq> []" "adjSeed ! d ! 0 = Some seed"
    and "d < length adjSens" "adjSens ! d \<noteq> []" "adjSens ! d ! 0 = Some sens"
    and "seed \<noteq> sens" "length (st seed) = length (assigns node)"
    and "\<forall>k<length (assigns node). 0 \<le> assigns node ! k \<and> nat (assigns node ! k) < length (st sens)"
  shows "\<exists>st1 st2. evaluate_adjoint node adjSeed adjSens d st = Inr st1 \<and>
           evaluate_adjoint node adjSeed adjSens d st1 = Inr st2 \<and>
           st2 sens = st1 sens \<and> st2 = st1"
proof -
  let ?n = "length (assigns node)"
  let ?st1 = "st(seed := replicate ?n 0,
                 sens := map (\<lambda>j. foldl (+) (st sens ! j)
                     (map (\<lambda>k. st seed ! k) (filter (\<lambda>k. assigns node ! k = int j) [0..<?n]))) [0..<length (st sens)])"
  have one: "evaluate_adjoint node adjSeed adjSens d st = Inr ?st1"
    using assms by (intro evaluate_adjoint_run)
  have len: "length (?st1 sens) = length (st sens)" "?st1 seed = replicate ?n 0"
    using assms(7) by simp_all
  have two: "evaluate_adjoint node adjSeed adjSens d ?st1 =
         Inr (?st1(seed := replicate ?n 0,
                 sens := map (\<lambda>j. foldl (+) (?st1 sens ! j)
                     (map (\<lambda>k. ?st1 seed ! k) (filter (\<lambda>k. assigns node ! k = int j) [0..<?n])))
                   [0..<length (?st1 sens)]))"
    using assms(1-7,9) len by (intro evaluate_adjoint_run) simp_all
  have "map (\<lambda>j. foldl (+) (?st1 sens ! j)
                     (map (\<lambda>k. ?st1 seed ! k) (filter (\<lambda>k. assigns node ! k = int j) [0..<?n])))
                   [0..<length (?st1 sens)] = ?st1 sens"
  proof (rule nth_equalityI)
    show "length (map (\<lambda>j. foldl (+) (?st1 sens ! j)
                     (map (\<lambda>k. ?st1 seed ! k) (filter (\<lambda>k. assigns node ! k = int j) [0..<?n])))
                   [0..<length (?st1 sens)]) = length (?st1 sens)"
      by simp
  next
    fix j
    assume "j < length (map (\<lambda>j. foldl (+) (?st1 sens ! j)
                     (map (\<lambda>k. ?st1 seed ! k) (filter (\<lambda>k. assigns node ! k = int j) [0..<?n])))
                   [0..<length (?st1 sens)])"
    then have j: "j < length (?st1 sens)" by simp
    have "foldl (+) (?st1 sens ! j) (map (\<lambda>k. ?st1 seed ! k) (filter (\<lambda>k. assigns node ! k = int j) [0..<?n])) =
          ?st1 sens ! j"
      unfolding len(2) using foldl_add_zeros [of "?st1 sens ! j" ?n "\<lambda>k. assigns node ! k = int j"]
      by simp
    then show "map (\<lambda>j. foldl (+) (?st1 sens ! j)
                     (map (\<lambda>k. ?st1 seed ! k) (filter (\<lambda>k. assigns node ! k = int j) [0..<?n])))
                   [0..<length (?st1 sens)] ! j = ?st1 sens ! j"
      using j by simp
  qed
  then have "?st1(seed := replicate ?n 0,
                 sens := map (\<lambda>j. foldl (+) (?st1 sens ! j)
                     (map (\<lambda>k. ?st1 seed ! k) (filter (\<lambda>k. assigns node ! k = int j) [0..<?n])))
                   [0..<length (?st1 sens)]) = ?st1"
    using assms(7) by (simp only: len(2)) auto
  with one two show ?thesis by simp
qed


text \<open>
  Claim C6. With both taint buffers present, \<open>propagateSparsity\<close> forward assigns
  \<open>outTaint[k] = inTaint[assigns_[k]]\<close> whatever the output held before, and in reverse
  ORs every \<open>outTaint[k]\<close> with \<open>assigns_[k] = j\<close> into \<open>inTaint[j]\<close> and zeroes the output.
\<close>

theorem taint_propagation:
  fixes st :: "bvec_t store" and node :: "'d getnonzeros"
  assumes "input = [Some i]" "output \<noteq> []" "output ! 0 = Some q" "i \<noteq> q"
    and "length (st q) = length (assigns node)"
    and "\<forall>k<length (assigns node). 0 \<le> assigns node ! k \<and> nat (assigns node ! k) < length (st i)"
  shows "(\<exists>st'. propagateSparsity node input output True st = Inr st' \<and>
            (\<forall>k<length (assigns node). st' q ! k = st i ! nat (assigns node ! k)) \<and>
            length (st' q) = length (st q) \<and> (\<forall>p. p \<noteq> q \<longrightarrow> st' p = st p))
       \<and> (\<exists>st'. propagateSparsity node input output False st = Inr st' \<and>
            (\<forall>j<length (st i). st' i ! j = foldl (OR) (st i ! j)
                 (map (\<lambda>k. st q ! k) (filter (\<lambda>k. assigns node ! k = int j) [0..<length (assigns node)]))) \<and>
            length (st' i) = length (st i) \<and>
            st' q = replicate (length (assigns node)) 0 \<and>
            (\<forall>p. p \<noteq> i \<and> p \<noteq> q \<longrightarrow> st' p = st p))"
proof (intro conjI)
  let ?n = "length (assigns node)"
  let ?st' = "st(q := map (\<lambda>k. st i ! nat (assigns node ! k)) [0..<?n] @ drop ?n (st q))"
  have "for_loop ?n (gather_body (assigns node) i q) st = Inr ?st'"
    using assms by (intro for_loop_gather) simp_all
  then have "propagateSparsity node input output True st = Inr ?st'"
    using assms by (simp add: propagateSparsity_def vec_at_def bindE_Inr)
  moreover have "\<forall>k<?n. ?st' q ! k = st i ! nat (assigns node ! k)"
    by (simp add: nth_append)
  moreover have "length (?st' q) = length (st q)"
    using assms by simp
  moreover have "\<forall>p. p \<noteq> q \<longrightarrow> ?st' p = st p"
    by simp
  ultimately show "\<exists>st'. propagateSparsity node input output True st = Inr st' \<and>
            (\<forall>k<length (assigns node). st' q ! k = st i ! nat (assigns node ! k)) \<and>
            length (st' q) = length (st q) \<and> (\<forall>p. p \<noteq> q \<longrightarrow> st' p = st p)"
    by blast
next
  let ?n = "length (assigns node)"
  let ?st' = "st(q := replicate ?n 0 @ drop ?n (st q),
                 i := map (\<lambda>j. foldl (OR) (st i ! j)
                     (map (\<lambda>k. st q ! k) (filter (\<lambda>k. assigns node ! k = int j) [0..<?n])))
                   [0..<length (st i)])"
  have "for_loop ?n (accumulate_body (OR) 0 (assigns node) q i) st = Inr ?st'"
    using assms by (intro for_loop_accumulate) simp_all
  then have "propagateSparsity node input output False st = Inr ?st'"
    using assms by (simp add: propagateSparsity_def vec_at_def bindE_Inr)
  moreover have "\<forall>j<length (st i). ?st' i ! j = foldl (OR) (st i ! j)
                 (map (\<lambda>k. st q ! k) (filter (\<lambda>k. assigns node ! k = int j) [0..<?n]))"
    by simp
  moreover have "length (?st' i) = length (st i)"
    by simp
  moreover have "?st' q = replicate ?n 0"
    using assms by simp
  moreover have "\<forall>p. p \<noteq> i \<and> p \<noteq> q \<longrightarrow> ?st' p = st p"
    by simp
  ultimately show "\<exists>st'. propagateSparsity node input output False st = Inr st' \<and>
            (\<forall>j<length (st i). st' i ! j = foldl (OR) (st i ! j)
                 (map (\<lambda>k. st q ! k) (filter (\<lambda>k. assigns node ! k = int j) [0..<length (assigns node)]))) \<and>
            length (st' i) = length (st i) \<and>
            st' q = replicate (length (assigns node)) 0 \<and>
            (\<forall>p. p \<noteq> i \<and> p \<noteq> q \<longrightarrow> st' p = st p)"
    by blast
qed

theorem primal_evaluation_witness:
  "\<exists>st'. evaluate_primal example_node [Some 0] [Some 1] example_store = Inr st' \<and>
         st' 1 ! 0 = 40 \<and> st' 1 ! 1 = 20 \<and> st' 0 = [10, 20, 30, 40]"
proof -
  have "[Some (0::nat)] \<noteq> [] \<and> [Some (0::nat)] ! 0 = Some 0 \<and> [Some (1::nat)] \<noteq> [] \<and>
        [Some (1::nat)] ! 0 = Some 1 \<and> (0::nat) \<noteq> 1 \<and>
        length (example_store 1) = length (assigns example_node) \<and>
        (\<forall>k<length (assigns example_node). 0 \<le> assigns example_node ! k \<and>
           nat (assigns example_node ! k) < length (example_store 0))"
    by (simp add: example_node_def example_store_def All_less_Suc)
  with primal_evaluation [of "[Some 0]" 0 "[Some 1]" 1 example_store example_node]
  obtain st' where "evaluate_primal example_node [Some 0] [Some 1] example_store = Inr st'"
    and "\<forall>k<length (assigns example_node). st' 1 ! k = example_store 0 ! nat (assigns example_node ! k)"
    and "\<forall>p. p \<noteq> 1 \<longrightarrow> st' p = example_store p"
    by blast
  then show ?thesis
    by (simp add: example_node_def example_store_def All_less_Suc)
qed

theorem adjoint_accumulate_then_clear_witness:
  "\<exists>st'. evaluate_adjoint example_node [[Some 3]] [[Some 2]] 0 example_store = Inr st' \<and>
         st' 2 ! 0 = 0 \<and> st' 2 ! 1 = 7 \<and> st' 2 ! 2 = 0 \<and> st' 2 ! 3 = 5 \<and> st' 3 = [0, 0]"
proof -
  have "(0::nat) < length [[Some (3::nat)]] \<and> [[Some (3::nat)]] ! 0 \<noteq> [] \<and>
        [[Some (3::nat)]] ! 0 ! 0 = Some 3 \<and>
        (0::nat) < length [[Some (2::nat)]] \<and> [[Some (2::nat)]] ! 0 \<noteq> [] \<and>
        [[Some (2::nat)]] ! 0 ! 0 = Some 2 \<and> (3::nat) \<noteq> 2 \<and>
        length (example_store 3) = length (assigns example_node) \<and>
        (\<forall>k<length (assigns example_node). 0 \<le> assigns example_node ! k \<and>
           nat (assigns example_node ! k) < length (example_store 2))"
    by (simp add: example_node_def example_store_def All_less_Suc)
  with adjoint_accumulate_then_clear [of 0 "[[Some 3]]" 3 "[[Some 2]]" 2 example_store example_node]
  obtain st' where "evaluate_adjoint example_node [[Some 3]] [[Some 2]] 0 example_store = Inr st'"
    and "\<forall>j<length (example_store 2). st' 2 ! j = foldl (+) (example_store 2 ! j)
           (map (\<lambda>k. example_store 3 ! k)
              (filter (\<lambda>k. assigns example_node ! k = int j) [0..<length (assigns example_node)]))"
    and "st' 3 = replicate (length (assigns example_node)) 0"
    by blast
  moreover have "[0..<2] = [0, Suc 0]" "[0..<4] = [0, 1, 2, 3]"
    by (simp_all add: upt_rec)
  ultimately show ?thesis
    by (simp add: example_node_def example_store_def numeral_2_eq_2)
qed

theorem adjoint_twice_is_once_witness:
  "\<exists>st1 st2. evaluate_adjoint example_node [[Some 3]] [[Some 2]] 0 example_store = Inr st1 \<and>
     evaluate_adjoint example_node [[Some 3]] [[Some 2]] 0 st1 = Inr st2 \<and> st2 2 = st1 2"
proof -
  have "\<forall>k<length (assigns example_node). 0 \<le> assigns example_node ! k \<and>
           nat (assigns example_node ! k) < length (example_store 2)"
    by (simp add: example_node_def example_store_def All_less_Suc)
  moreover have "length (example_store 3) = length (assigns example_node)"
    by (simp add: example_node_def example_store_def)
  ultimately show ?thesis
    using adjoint_twice_is_once [of 0 "[[Some 3]]" 3 "[[Some 2]]" 2 example_store example_node]
    by auto
qed

theorem taint_propagation_witness:
  "(\<exists>st'. propagateSparsity example_node [Some 0] [Some 1] True example_taint = Inr st' \<and>
      st' 1 ! 0 = 8 \<and> st' 1 ! 1 = 2) \<and>
   (\<exists>st'. propagateSparsity example_node [Some 0] [Some 1] False example_taint = Inr st' \<and>
      st' 0 ! 0 = 1 \<and> st' 0 ! 1 = 34 \<and> st' 0 ! 2 = 4 \<and> st' 0 ! 3 = 24 \<and> st' 1 = [0, 0])"
proof -
  have "\<forall>k<length (assigns example_node). 0 \<le> assigns example_node ! k \<and>
           nat (assigns example_node ! k) < length (example_taint 0)"
    by (simp add: example_node_def example_taint_def All_less_Suc)
  moreover have "length (example_taint 1) = length (assigns example_node)"
    by (simp add: example_node_def example_taint_def)
  moreover have "[Some (1::nat)] \<noteq> []" "[Some (1::nat)] ! 0 = Some 1" "(0::nat) \<noteq> 1"
    by simp_all
  ultimately have both: "(\<exists>st'. propagateSparsity example_node [Some 0] [Some 1] True example_taint = Inr st' \<and>
            (\<forall>k<length (assigns example_node). st' 1 ! k = example_taint 0 ! nat (assigns example_node ! k)) \<and>
            length (st' 1) = length (example_taint 1) \<and> (\<forall>p. p \<noteq> 1 \<longrightarrow> st' p = example_taint p))
       \<and> (\<exists>st'. propagateSparsity example_node [Some 0] [Some 1] False example_taint = Inr st' \<and>
            (\<forall>j<length (example_taint 0). st' 0 ! j = foldl (OR) (example_taint 0 ! j)
                 (map (\<lambda>k. example_taint 1 ! k) (filter (\<lambda>k. assigns example_node ! k = int j) [0..<length (assigns example_node)]))) \<and>
            length (st' 0) = length (example_taint 0) \<and>
            st' 1 = replicate (length (assigns example_node)) 0 \<and>
            (\<forall>p. p \<noteq> 0 \<and> p \<noteq> 1 \<longrightarrow> st' p = example_taint p))"
    by (intro taint_propagation) simp_all
  have upt2: "[0..<2] = [0, Suc 0]"
    by (simp add: upt_rec)
  from both obtain sf where sf: "propagateSparsity example_node [Some 0] [Some 1] True example_taint = Inr sf"
    "\<forall>k<length (assigns example_node). sf 1 ! k = example_taint 0 ! nat (assigns example_node ! k)"
    by blast
  from both obtain sr where sr: "propagateSparsity example_node [Some 0] [Some 1] False example_taint = Inr sr"
    "\<forall>j<length (example_taint 0). sr 0 ! j = foldl (OR) (example_taint 0 ! j)
                 (map (\<lambda>k. example_taint 1 ! k) (filter (\<lambda>k. assigns example_node ! k = int j) [0..<length (assigns example_node)]))"
    "sr 1 = replicate (length (assigns example_node)) 0"
    by blast
  have "sf 1 ! 0 = 8 \<and> sf 1 ! 1 = 2"
    using sf(2) by (simp add: example_node_def example_taint_def All_less_Suc)
  moreover have "sr 0 ! 0 = 1 \<and> sr 0 ! 1 = 34 \<and> sr 0 ! 2 = 4 \<and> sr 0 ! 3 = 24 \<and> sr 1 = [0, 0]"
    using sr(2,3) upt2
    by (simp add: example_node_def example_taint_def numeral_2_eq_2 numeral_3_eq_3 All_less_Suc)
  ultimately show ?thesis
    using sf(1) sr(1) by simp
qed

subsection \<open>init\<close>

lemma init_loop:
  "m \<le> length (assigns node) \<Longrightarrow>
   for_loop m (\<lambda>onz nd. bindE (vec_at (assigns nd) onz) (\<lambda>a.
                     Inr (nd\<lparr>assigns2 := assigns2 nd @ [(a, int onz)]\<rparr>))) (node\<lparr>assigns2 := []\<rparr>) =
   Inr (node\<lparr>assigns2 := map (\<lambda>k. (assigns node ! k, int k)) [0..<m]\<rparr>)"
  by (induction m) (simp_all add: bindE_Inr vec_at_def)

lemma init_result:
  "init node = (if length (dep node) \<noteq> 1 then Inl DependencyArity
                else Inr (node\<lparr>assigns2 := map (\<lambda>k. (assigns node ! k, int k)) [0..<length (assigns node)]\<rparr>))"
  by (simp add: init_def init_loop)

text \<open>
  Claim C10. When \<open>init\<close> completes, \<open>assigns2_\<close> has one pair per entry of \<open>assigns_\<close>, the
  \<open>k\<close>-th being \<open>(assigns_[k], k)\<close>; what \<open>assigns2_\<close> held before does not matter, and
  running \<open>init\<close> again gives the same node.
\<close>

theorem init_pairs_in_output_order:
  assumes "init node = Inr node'"
  shows "length (assigns2 node') = length (assigns node) \<and>
         (\<forall>k<length (assigns node). assigns2 node' ! k = (assigns node ! k, int k)) \<and>
         init (node\<lparr>assigns2 := previous\<rparr>) = Inr node' \<and>
         init node' = Inr node'"
proof -
  have d: "length (dep node) = 1"
    using assms by (simp add: init_result split: if_splits)
  then have n': "node' = node\<lparr>assigns2 := map (\<lambda>k. (assigns node ! k, int k)) [0..<length (assigns node)]\<rparr>"
    using assms by (simp add: init_result)
  show ?thesis
    using d by (simp add: n' init_result)
qed

theorem init_pairs_in_output_order_witness:
  "init (example_node\<lparr>assigns2 := [(7, 7)]\<rparr>) = Inr example_node \<and>
   length (assigns2 example_node) = length (assigns example_node) \<and>
   assigns2 example_node ! 0 = (3, 0) \<and> assigns2 example_node ! 1 = (1, 1) \<and>
   init example_node = Inr example_node"
proof -
  have "[0..<2] = [0, Suc 0]"
    by (simp add: upt_rec)
  then have run: "init (example_node\<lparr>assigns2 := [(7, 7)]\<rparr>) = Inr example_node"
    by (simp add: init_result example_node_def numeral_2_eq_2)
  show ?thesis
    using run init_pairs_in_output_order [OF run, of "[]"]
    by (simp add: example_node_def)
qed

subsection \<open>isIdentity\<close>

lemma in_increasing_order_iff:
  "in_increasing_order k as \<longleftrightarrow> (\<forall>i<length as. as ! i = int (k + i))"
proof (induction as arbitrary: k)
  case Nil
  then show ?case by simp
next
  case (Cons a as)
  have "(\<forall>i<length (a # as). (a # as) ! i = int (k + i)) \<longleftrightarrow>
        a = int k \<and> (\<forall>i<length as. as ! i = int (Suc k + i))"
    by (simp add: All_less_Suc2 ac_simps)
  then show ?case
    by (simp only: in_increasing_order.simps Cons.IH [of "Suc k"]) (simp add: ac_simps)
qed

lemma identity_table:
  "(\<forall>i<length as. as ! i = int i) \<longleftrightarrow> as = map int [0..<length as]"
proof
  assume "\<forall>i<length as. as ! i = int i"
  then show "as = map int [0..<length as]"
    by (intro nth_equalityI) simp_all
next
  assume h: "as = map int [0..<length as]"
  show "\<forall>i<length as. as ! i = int i"
  proof (intro allI impI)
    fix i
    assume "i < length as"
    then have "map int [0..<length as] ! i = int i"
      by simp
    then show "as ! i = int i"
      by (subst h)
  qed
qed

text \<open>
  Claim C7. On a node with one non-null dependency and as many entries in \<open>assigns_\<close> as
  output nonzeros, \<open>isIdentity\<close> is true exactly when the output pattern equals the
  dependency's and \<open>assigns_[k] = k\<close> for all \<open>k\<close>: true for \<open>[0,1,2]\<close> over the
  dependency's own pattern, false for every table other than \<open>[0, ..., n-1]\<close> with \<open>n\<close>
  the dependency's nonzero count (a proper permutation, a subset).
\<close>

theorem isIdentity_iff:
  fixes node :: "('n option) getnonzeros"
  assumes "dep node = [Some d]" and "length (assigns node) = sp_size (sparsity node)"
  shows "isIdentity sparsity_of node =
           Inr (sparsity node = sparsity_of d \<and> (\<forall>k<length (assigns node). assigns node ! k = int k))
       \<and> (sparsity node = sparsity_of d \<and> assigns node = [0, 1, 2] \<longrightarrow>
            isIdentity sparsity_of node = Inr True)
       \<and> (assigns node \<noteq> map int [0..<sp_size (sparsity_of d)] \<longrightarrow>
            isIdentity sparsity_of node = Inr False)"
proof -
  have main: "isIdentity sparsity_of node =
           Inr (sparsity node = sparsity_of d \<and> (\<forall>k<length (assigns node). assigns node ! k = int k))"
    using assms(1)
    by (simp add: isIdentity_def dep_sparsity_def vec_at_def bindE_Inr in_increasing_order_iff)
  have "isIdentity sparsity_of node = Inr True"
    if "sparsity node = sparsity_of d \<and> assigns node = [0, 1, 2]"
    using that by (simp add: main All_less_Suc numeral_3_eq_3)
  moreover have "isIdentity sparsity_of node = Inr False"
    if ne: "assigns node \<noteq> map int [0..<sp_size (sparsity_of d)]"
  proof -
    have "\<not> (sparsity node = sparsity_of d \<and> (\<forall>k<length (assigns node). assigns node ! k = int k))"
    proof
      assume h: "sparsity node = sparsity_of d \<and> (\<forall>k<length (assigns node). assigns node ! k = int k)"
      then have "assigns node = map int [0..<length (assigns node)]"
        by (simp add: identity_table)
      moreover have "length (assigns node) = sp_size (sparsity_of d)"
        using h assms(2) by simp
      ultimately show False
        using ne by simp
    qed
    then show ?thesis
      by (simp add: main)
  qed
  ultimately show ?thesis
    using main by blast
qed

theorem isIdentity_iff_witness:
  "isIdentity (\<lambda>sp. sp) example_identity = Inr True \<and>
   isIdentity (\<lambda>sp. sp) (example_identity\<lparr>assigns := [1, 0, 2]\<rparr>) = Inr False"
proof -
  have "[0..<3] = [0, 1, 2]"
    by (simp add: upt_rec)
  then have ne: "[1, 0, 2] \<noteq> map int [0..<sp_size example_pattern]"
    by (simp add: sp_size_def example_pattern_def)
  have "isIdentity (\<lambda>sp. sp) example_identity = Inr True"
    using isIdentity_iff [of example_identity example_pattern "\<lambda>sp. sp"]
    by (simp add: example_identity_def sp_size_def example_pattern_def All_less_Suc)
  moreover have "isIdentity (\<lambda>sp. sp) (example_identity\<lparr>assigns := [1, 0, 2]\<rparr>) = Inr False"
    using isIdentity_iff [of "example_identity\<lparr>assigns := [1, 0, 2]\<rparr>" example_pattern "\<lambda>sp. sp"] ne
    by (simp add: example_identity_def sp_size_def example_pattern_def All_less_Suc)
  ultimately show ?thesis
    by simp
qed

subsection \<open>assign\<close>

lemma assign_loop:
  assumes "length inz \<le> length (assigns node)"
  shows "m \<le> length inz \<Longrightarrow>
    for_loop m (\<lambda>k nd. bindE (vec_at inz k) (\<lambda>v.
        bindE (set_int (assigns nd) (int k) v) (\<lambda>as. Inr (nd\<lparr>assigns := as\<rparr>)))) node =
    Inr (node\<lparr>assigns := take m inz @ drop m (assigns node)\<rparr>)"
proof (induction m)
  case 0
  then show ?case by simp
next
  case (Suc m)
  have m: "m < length inz" "m < length (assigns node)"
    using Suc.prems assms by simp_all
  have "(take m inz @ drop m (assigns node))[m := inz ! m] =
        (take m inz @ [inz ! m]) @ drop (Suc m) (assigns node)"
    using m by (intro update_prefix_drop) simp_all
  then have "(take m inz @ drop m (assigns node))[m := inz ! m] =
        take (Suc m) inz @ drop (Suc m) (assigns node)"
    using m(1) by (simp add: take_Suc_conv_app_nth)
  then show ?case
    using Suc m by (simp add: bindE_Inr vec_at_def set_int_def)
qed

lemma addDependency_keeps:
  "addDependency d node = (i, node1) \<Longrightarrow>
   assigns node1 = assigns node \<and> sparsity node1 = sparsity node \<and>
   assigns2 node1 = assigns2 node \<and> d \<in> set (dep node1)"
  by (auto simp: addDependency_def split: if_splits)

lemma assign_saves_mapping:
  fixes node :: "('n option) getnonzeros"
  assumes "inz \<noteq> []" "\<not> isNull d" "length inz = sp_size (sparsity node)"
    and "length (assigns node) = sp_size (sparsity node)"
  shows "\<exists>node'. assign d inz add node = Inr node' \<and> assigns node' = inz \<and>
           d \<in> set (dep node') \<and> sparsity node' = sparsity node"
proof -
  obtain i node1 where a: "addDependency d node = (i, node1)"
    by (cases "addDependency d node")
  note k = addDependency_keeps [OF a]
  have "for_loop (length inz) (\<lambda>k nd. bindE (vec_at inz k) (\<lambda>v.
        bindE (set_int (assigns nd) (int k) v) (\<lambda>as. Inr (nd\<lparr>assigns := as\<rparr>)))) node1 =
    Inr (node1\<lparr>assigns := take (length inz) inz @ drop (length inz) (assigns node1)\<rparr>)"
    using assms k by (intro assign_loop) simp_all
  then have "assign d inz add node = Inr (node1\<lparr>assigns := inz\<rparr>)"
    using assms a k by (simp add: assign_def)
  then show ?thesis
    using k by simp
qed

text \<open>
  Claim C4, as the code has it. \<open>assign\<close> with an empty table returns the node as it
  was, whatever the dependency and the nonzero count; on a freshly constructed node
  that is the all-zero node without a dependency. With a non-empty table it fails with
  \<open>DanglingDependency\<close> when the dependency is null (whatever the length), with
  \<open>ShapeMismatch\<close> when the dependency is not null and the length differs from the
  output nonzero count, and otherwise saves the table and the dependency.
\<close>

theorem assign_outcomes:
  fixes node :: "('n option) getnonzeros"
  shows "(inz = [] \<longrightarrow> assign d inz add node = Inr node)
       \<and> (inz \<noteq> [] \<and> isNull d \<longrightarrow> assign d inz add node = Inl DanglingDependency)
       \<and> (inz \<noteq> [] \<and> \<not> isNull d \<and> length inz \<noteq> sp_size (sparsity node) \<longrightarrow>
            assign d inz add node = Inl ShapeMismatch)
       \<and> (inz \<noteq> [] \<and> \<not> isNull d \<and> length inz = sp_size (sparsity node) \<and>
          length (assigns node) = sp_size (sparsity node) \<longrightarrow>
            (\<exists>node'. assign d inz add node = Inr node' \<and> assigns node' = inz \<and>
               d \<in> set (dep node') \<and> sparsity node' = sparsity node))
       \<and> assign d [] add (GetNonzeros sp) = Inr (GetNonzeros sp)
       \<and> assigns (GetNonzeros sp :: ('n option) getnonzeros) = replicate (sp_size sp) 0
       \<and> dep (GetNonzeros sp :: ('n option) getnonzeros) = []"
proof (intro conjI impI)
  assume "inz \<noteq> [] \<and> \<not> isNull d \<and> length inz = sp_size (sparsity node) \<and>
          length (assigns node) = sp_size (sparsity node)"
  then show "\<exists>node'. assign d inz add node = Inr node' \<and> assigns node' = inz \<and>
               d \<in> set (dep node') \<and> sparsity node' = sparsity node"
    by (intro assign_saves_mapping) simp_all
qed (simp_all add: assign_def GetNonzeros_def)

theorem assign_outcomes_witness:
  "assign (None :: sparsity option) [] False (GetNonzeros example_pattern) = Inr (GetNonzeros example_pattern) \<and>
   assign (None :: sparsity option) [2, 0] False (GetNonzeros example_pattern) = Inl DanglingDependency \<and>
   assign (Some example_pattern) [2, 0] False (GetNonzeros example_pattern) = Inl ShapeMismatch \<and>
   (\<exists>node'. assign (Some example_pattern) [2, 0, 1] False (GetNonzeros example_pattern) = Inr node' \<and>
      assigns node' = [2, 0, 1] \<and> Some example_pattern \<in> set (dep node'))"
proof -
  let ?n = "GetNonzeros example_pattern :: (sparsity option) getnonzeros"
  have sz: "sp_size (sparsity ?n) = 3" "length (assigns ?n) = 3"
    by (simp_all add: GetNonzeros_def sp_size_def example_pattern_def)
  have "assign None [] False ?n = Inr ?n"
    using assign_outcomes [of "[]" None False ?n] by simp
  moreover have "assign None [2, 0] False ?n = Inl DanglingDependency"
    using assign_outcomes [of "[2, 0]" None False ?n] by (simp add: isNull_def)
  moreover have "assign (Some example_pattern) [2, 0] False ?n = Inl ShapeMismatch"
    using assign_outcomes [of "[2, 0]" "Some example_pattern" False ?n] sz by (simp add: isNull_def)
  moreover have "\<exists>node'. assign (Some example_pattern) [2, 0, 1] False ?n = Inr node' \<and>
      assigns node' = [2, 0, 1] \<and> Some example_pattern \<in> set (dep node')"
    using assign_outcomes [of "[2, 0, 1]" "Some example_pattern" False ?n] sz
    by (simp add: isNull_def) blast
  ultimately show ?thesis
    by blast
qed

text \<open>
  Claim C4 as stated fails: with a null dependency and an empty table over a pattern of
  three nonzeros the length differs and the dependency is absent, yet \<open>assign\<close>
  succeeds; with a null dependency and a table of the wrong length the failure is
  \<open>DanglingDependency\<close>, not \<open>ShapeMismatch\<close>.
\<close>

theorem assign_counterexample:
  "length ([] :: int list) \<noteq> sp_size example_pattern \<and> isNull (None :: sparsity option) \<and>
   assign (None :: sparsity option) [] False (GetNonzeros example_pattern) = Inr (GetNonzeros example_pattern) \<and>
   length ([2, 0] :: int list) \<noteq> sp_size example_pattern \<and>
   assign (None :: sparsity option) [2, 0] False (GetNonzeros example_pattern) = Inl DanglingDependency"
  by (simp add: assign_def isNull_def sp_size_def example_pattern_def)

subsection \<open>generateOperation\<close>

lemma first_position:
  "v \<in> set pool \<Longrightarrow>
   length (takeWhile (\<lambda>x. x \<noteq> v) pool) < length pool \<and> pool ! length (takeWhile (\<lambda>x. x \<noteq> v) pool) = v"
  by (induction pool) auto

lemma getConstant_handle:
  assumes "getConstant v pool = (i, pool')"
  shows "0 \<le> i \<and> nat i < length pool' \<and> pool' ! nat i = v \<and> (\<exists>ext. pool' = pool @ ext)"
proof (cases "v \<in> set pool")
  case True
  then show ?thesis
    using assms first_position [OF True] by (auto simp: getConstant_def)
next
  case False
  then show ?thesis
    using assms by (auto simp: getConstant_def)
qed

text \<open>
  Claim C9. On a node after \<open>init\<close>, \<open>generateOperation\<close> appends to the stream exactly a
  zero-fill statement over the output nonzero count followed by one accumulate
  statement over as many pairs, and nothing else; the statement names two handles of
  the constant pool, which hold the input indices and the output indices of the pairs
  of \<open>assigns2_\<close>; the pool only grows.
\<close>

theorem generateOperation_two_statements:
  assumes "res \<noteq> []" and "arg \<noteq> []"
    and "length (assigns node) = sp_size (sparsity node)"
    and "assigns2 node = map (\<lambda>k. (assigns node ! k, int k)) [0..<length (assigns node)]"
  shows "\<exists>ind1 ind2 gen'.
           generateOperation node arg res (stream, gen) =
             Inr (stream @ zero_fill_statement (sp_size (sparsity node)) (hd res)
                         @ accumulate_statement (sp_size (sparsity node)) (hd res) ind2 (hd arg) ind1,
                  gen') \<and>
           0 \<le> ind1 \<and> nat ind1 < length gen' \<and> gen' ! nat ind1 = assigns node \<and>
           0 \<le> ind2 \<and> nat ind2 < length gen' \<and>
           gen' ! nat ind2 = map int [0..<length (assigns node)] \<and>
           (\<exists>ext. gen' = gen @ ext)"
proof -
  let ?tmp1 = "map fst (assigns2 node)" and ?tmp2 = "map snd (assigns2 node)"
  obtain ind1 gen1 where c1: "getConstant ?tmp1 gen = (ind1, gen1)"
    by (cases "getConstant ?tmp1 gen")
  obtain ind2 gen2 where c2: "getConstant ?tmp2 gen1 = (ind2, gen2)"
    by (cases "getConstant ?tmp2 gen1")
  note h1 = getConstant_handle [OF c1] and h2 = getConstant_handle [OF c2]
  have t1: "?tmp1 = assigns node"
    by (simp add: assms(4) comp_def map_nth)
  have t2: "?tmp2 = map int [0..<length (assigns node)]"
    by (simp add: assms(4) comp_def)
  have len: "length (assigns2 node) = sp_size (sparsity node)"
    using assms(3,4) by simp
  have hd: "vec_at res 0 = Inr (hd res)" "vec_at arg 0 = Inr (hd arg)"
    using assms(1,2) by (simp_all add: vec_at_def hd_conv_nth)
  have run: "generateOperation node arg res (stream, gen) =
             Inr (stream @ zero_fill_statement (sp_size (sparsity node)) (hd res)
                         @ accumulate_statement (sp_size (sparsity node)) (hd res) ind2 (hd arg) ind1,
                  gen2)"
    by (simp add: generateOperation_def hd bindE_Inr c1 c2 len)
  obtain ext2 where e2: "gen2 = gen1 @ ext2"
    using h2 by blast
  have "nat ind1 < length gen2 \<and> gen2 ! nat ind1 = assigns node"
    using h1 t1 by (simp add: e2 nth_append)
  moreover have "\<exists>ext. gen2 = gen @ ext"
    using h1 e2 by auto
  ultimately show ?thesis
    using run h1 h2 t2 by auto
qed

theorem generateOperation_two_statements_witness:
  "generateOperation example_node [''x''] [''r''] ('''', []) =
     Inr (''  for(i=0; i<2; ++i) r[i]=0;'' @ endl @
          ''  for(i=0; i<2; ++i) r[s1[i]] += x[s0[i]];'' @ endl, [[3, 1], [0, 1]])"
proof -
  have "[0..<2] = [0, Suc 0]"
    by (simp add: upt_rec)
  then have pairs: "assigns2 example_node =
      map (\<lambda>k. (assigns example_node ! k, int k)) [0..<length (assigns example_node)]"
    by (simp add: example_node_def numeral_2_eq_2)
  have "length (assigns example_node) = sp_size (sparsity example_node)"
    by (simp add: example_node_def sp_size_def)
  with generateOperation_two_statements [of "[''r'']" "[''x'']" example_node "''''" "[]"] pairs
  obtain ind1 ind2 gen' where
    "generateOperation example_node [''x''] [''r''] ('''', []) =
             Inr ('''' @ zero_fill_statement (sp_size (sparsity example_node)) (hd [''r''])
                         @ accumulate_statement (sp_size (sparsity example_node)) (hd [''r'']) ind2 (hd [''x'']) ind1,
                  gen')"
    by auto
  then show ?thesis
    by (simp add: generateOperation_def example_node_def sp_size_def vec_at_def bindE_Inr
        getConstant_def zero_fill_statement_def accumulate_statement_def show_int_def nth_Cons')
qed

subsection \<open>The order of the assignments by input nonzero\<close>

lemma at_int_nat: "i < length v \<Longrightarrow> at_int v (int i) = Inr (v ! i)"
  by (simp add: at_int_def)

lemma set_int_nat: "i < length v \<Longrightarrow> set_int v (int i) x = Inr (v[i := x])"
  by (simp add: set_int_def)

lemma seen_Suc: "seen a2 (Suc m) i = seen a2 m i + (if fst (a2 ! m) = int i then 1 else 0)"
  by (simp add: seen_def)

lemma seen_all: "seen a2 (length a2) i = length (bucket a2 i)"
  by (simp add: seen_def bucket_def)

lemma offset_Suc: "offset a2 (Suc i) = offset a2 i + length (bucket a2 i)"
  by (simp add: offset_def)

lemma offset_0: "offset a2 0 = 0"
  by (simp add: offset_def)

lemma offset_mono: "i \<le> j \<Longrightarrow> offset a2 i \<le> offset a2 j"
  by (induction j) (auto simp: offset_Suc le_Suc_eq)

lemma count_inputs_run:
  assumes "\<forall>k<length a2. 0 \<le> fst (a2 ! k) \<and> fst (a2 ! k) < int nin"
  shows "m \<le> length a2 \<Longrightarrow>
    for_loop m (\<lambda>k inz_count. bindE (vec_at a2 k) (\<lambda>it.
          bindE (at_int inz_count (fst it + 1)) (\<lambda>c.
          set_int inz_count (fst it + 1) (c + 1)))) (replicate (nin + 1) 0) =
    Inr (0 # map (\<lambda>i. int (seen a2 m i)) [0..<nin])"
proof (induction m)
  case 0
  have "map (\<lambda>i. 0::int) [0..<nin] = replicate nin 0"
    by (simp add: map_replicate_const)
  then show ?case
    by (simp add: seen_def)
next
  case (Suc m)
  let ?xs = "map (\<lambda>i. int (seen a2 m i)) [0..<nin]"
  obtain i0 where i0: "fst (a2 ! m) = int i0" "i0 < nin"
    using assms Suc.prems by (metis Suc_le_lessD nonneg_int_cases of_nat_less_iff)
  have idx: "fst (a2 ! m) + 1 = int (Suc i0)"
    using i0 by simp
  have upd: "?xs[i0 := int (seen a2 m i0) + 1] = map (\<lambda>i. int (seen a2 (Suc m) i)) [0..<nin]"
    using i0 by (intro nth_equalityI) (auto simp: seen_Suc nth_list_update)
  have run: "for_loop m (\<lambda>k inz_count. bindE (vec_at a2 k) (\<lambda>it.
          bindE (at_int inz_count (fst it + 1)) (\<lambda>c.
          set_int inz_count (fst it + 1) (c + 1)))) (replicate (nin + 1) 0) = Inr (0 # ?xs)"
    by (rule Suc.IH) (use Suc.prems in simp)
  have "vec_at a2 m = Inr (a2 ! m)"
    using Suc.prems by (simp add: vec_at_def)
  moreover have "at_int (0 # ?xs) (int (Suc i0)) = Inr (int (seen a2 m i0))"
    using i0(2) by (subst at_int_nat) simp_all
  moreover have "set_int (0 # ?xs) (int (Suc i0)) (int (seen a2 m i0) + 1) =
      Inr (0 # ?xs[i0 := int (seen a2 m i0) + 1])"
    using i0(2) by (subst set_int_nat) simp_all
  ultimately show ?case
    by (simp only: for_loop.simps run bindE_Inr idx upd)
qed

lemma cumsum_run:
  "i \<le> nin \<Longrightarrow>
    for_loop i (\<lambda>i inz_count. bindE (at_int inz_count (int i)) (\<lambda>x.
          bindE (at_int inz_count (int i + 1)) (\<lambda>y.
          set_int inz_count (int i + 1) (y + x))))
      (0 # map (\<lambda>j. int (length (bucket a2 j))) [0..<nin]) =
    Inr (map (\<lambda>j. if j \<le> i then int (offset a2 j) else int (length (bucket a2 (j - 1))))
           [0..<Suc nin])"
proof (induction i)
  case 0
  have "0 # map (\<lambda>j. int (length (bucket a2 j))) [0..<nin] =
        map (\<lambda>j. if j \<le> 0 then int (offset a2 j) else int (length (bucket a2 (j - 1)))) [0..<Suc nin]"
  proof (rule nth_equalityI)
    show "length (0 # map (\<lambda>j. int (length (bucket a2 j))) [0..<nin]) =
          length (map (\<lambda>j. if j \<le> 0 then int (offset a2 j) else int (length (bucket a2 (j - 1))))
             [0..<Suc nin])"
      by simp
  next
    fix j
    assume "j < length (0 # map (\<lambda>j. int (length (bucket a2 j))) [0..<nin])"
    then have j: "j < Suc nin" by simp
    show "(0 # map (\<lambda>j. int (length (bucket a2 j))) [0..<nin]) ! j =
          map (\<lambda>j. if j \<le> 0 then int (offset a2 j) else int (length (bucket a2 (j - 1))))
             [0..<Suc nin] ! j"
    proof (cases j)
      case 0
      then show ?thesis by (simp add: offset_0 upt_rec)
    next
      case (Suc j')
      then have "j' < nin" using j by simp
      then have "map (\<lambda>j. if j \<le> 0 then int (offset a2 j) else int (length (bucket a2 (j - 1))))
             [0..<Suc nin] ! Suc j' = int (length (bucket a2 j'))"
        by (subst nth_map_upt) simp_all
      then show ?thesis
        using Suc \<open>j' < nin\<close> by simp
    qed
  qed
  then show ?case by simp
next
  case (Suc i)
  let ?F = "\<lambda>i j. if j \<le> i then int (offset a2 j) else int (length (bucket a2 (j - 1)))"
  let ?c = "map (?F i) [0..<Suc nin]"
  have i: "i < Suc nin" "Suc i < Suc nin"
    using Suc.prems by simp_all
  have run: "for_loop i (\<lambda>i inz_count. bindE (at_int inz_count (int i)) (\<lambda>x.
          bindE (at_int inz_count (int i + 1)) (\<lambda>y.
          set_int inz_count (int i + 1) (y + x))))
      (0 # map (\<lambda>j. int (length (bucket a2 j))) [0..<nin]) = Inr ?c"
    by (rule Suc.IH) (use Suc.prems in simp)
  have idx: "int i + 1 = int (Suc i)"
    by simp
  have x: "at_int ?c (int i) = Inr (int (offset a2 i))"
    using i(1) by (subst at_int_nat) (simp_all del: upt_Suc)
  have y: "at_int ?c (int (Suc i)) = Inr (int (length (bucket a2 i)))"
    using i(2) by (subst at_int_nat) (simp_all del: upt_Suc)
  have w: "set_int ?c (int (Suc i)) (int (length (bucket a2 i)) + int (offset a2 i)) =
      Inr (?c[Suc i := int (length (bucket a2 i)) + int (offset a2 i)])"
    using i(2) by (subst set_int_nat) (simp_all del: upt_Suc)
  have upd: "?c[Suc i := int (length (bucket a2 i)) + int (offset a2 i)] = map (?F (Suc i)) [0..<Suc nin]"
    using i by (intro nth_equalityI) (auto simp del: upt_Suc simp: nth_list_update offset_Suc)
  show ?case
    by (simp only: for_loop.simps run bindE_Inr idx x y w upd)
qed


lemma bucket_split:
  "m \<le> length a2 \<Longrightarrow>
   bucket a2 i = filter (\<lambda>k. fst (a2 ! k) = int i) [0..<m] @ filter (\<lambda>k. fst (a2 ! k) = int i) [m..<length a2]"
proof -
  assume "m \<le> length a2"
  then have "[0..<length a2] = [0..<m] @ [m..<length a2]"
    by (metis le_add_diff_inverse upt_add_eq_append zero_le)
  then show ?thesis
    by (simp add: bucket_def)
qed

lemma seen_le_bucket: "m \<le> length a2 \<Longrightarrow> seen a2 m i \<le> length (bucket a2 i)"
  by (simp add: bucket_split [of m] seen_def)

lemma bucket_next:
  assumes "m < length a2" and "fst (a2 ! m) = int i"
  shows "seen a2 m i < length (bucket a2 i) \<and> bucket a2 i ! seen a2 m i = m"
proof -
  have "[m..<length a2] = m # [Suc m..<length a2]"
    using assms(1) by (simp add: upt_conv_Cons)
  then have "bucket a2 i = filter (\<lambda>k. fst (a2 ! k) = int i) [0..<m] @
      m # filter (\<lambda>k. fst (a2 ! k) = int i) [Suc m..<length a2]"
    using assms by (simp add: bucket_split [of m])
  then show ?thesis
    by (simp add: seen_def nth_append)
qed

lemma position_order:
  assumes "i < j" and "t < length (bucket a2 i)"
  shows "offset a2 i + t < offset a2 j"
proof -
  have "offset a2 i + t < offset a2 (Suc i)"
    using assms(2) by (simp add: offset_Suc)
  also have "\<dots> \<le> offset a2 j"
    using assms(1) by (intro offset_mono) simp
  finally show ?thesis .
qed

lemma position_inj:
  assumes "t < length (bucket a2 i)" and "t' < length (bucket a2 i')"
    and "offset a2 i + t = offset a2 i' + t'"
  shows "i = i' \<and> t = t'"
proof -
  have "i = i'"
  proof (rule ccontr)
    assume "i \<noteq> i'"
    then consider "i < i'" | "i' < i" by arith
    then show False
    proof cases
      case 1
      then show False
        using position_order [OF 1 assms(1)] assms(3) by simp
    next
      case 2
      then show False
        using position_order [OF 2 assms(2)] assms(3) by simp
    qed
  qed
  then show ?thesis
    using assms(3) by simp
qed

lemma length_filter_range_Suc:
  "length (filter (\<lambda>k. 0 \<le> f k \<and> f k < int (Suc j)) xs) =
   length (filter (\<lambda>k. 0 \<le> f k \<and> f k < int j) xs) + length (filter (\<lambda>k. f k = int j) xs)"
  by (induction xs) auto

lemma offset_filter:
  "offset a2 j = length (filter (\<lambda>k. 0 \<le> fst (a2 ! k) \<and> fst (a2 ! k) < int j) [0..<length a2])"
proof (induction j)
  case 0
  then show ?case by (simp add: offset_0)
next
  case (Suc j)
  show ?case
    unfolding offset_Suc Suc.IH length_filter_range_Suc [of "\<lambda>k. fst (a2 ! k)"]
    by (simp add: bucket_def)
qed

lemma offset_le: "offset a2 j \<le> length a2"
proof -
  have "length (filter (\<lambda>k. 0 \<le> fst (a2 ! k) \<and> fst (a2 ! k) < int j) [0..<length a2]) \<le>
        length [0..<length a2]"
    by (rule length_filter_le)
  then show ?thesis
    by (simp add: offset_filter)
qed

lemma offset_all:
  assumes "\<forall>k<length a2. 0 \<le> fst (a2 ! k) \<and> fst (a2 ! k) < int nin"
  shows "offset a2 nin = length a2"
proof -
  have "filter (\<lambda>k. 0 \<le> fst (a2 ! k) \<and> fst (a2 ! k) < int nin) [0..<length a2] = [0..<length a2]"
    using assms by (intro filter_True) simp
  then show ?thesis
    by (simp add: offset_filter)
qed

lemma place_assignments_run:
  assumes rng: "\<forall>k<length a2. 0 \<le> fst (a2 ! k) \<and> fst (a2 ! k) < int nin"
  shows "m \<le> length a2 \<Longrightarrow>
    \<exists>ord. for_loop m
       (\<lambda>k s. case s of (inz_count, assigns2_order) \<Rightarrow>
          bindE (vec_at a2 k) (\<lambda>it.
          bindE (at_int inz_count (fst it)) (\<lambda>pos.
          bindE (set_int inz_count (fst it) (pos + 1)) (\<lambda>inz_count1.
          bindE (set_int assigns2_order pos (int k)) (\<lambda>assigns2_order1.
          Inr (inz_count1, assigns2_order1))))))
       (map (\<lambda>j. int (offset a2 j)) [0..<Suc nin], replicate (length a2) 0) =
      Inr (map (\<lambda>j. int (offset a2 j + seen a2 m j)) [0..<Suc nin], ord) \<and>
      length ord = length a2 \<and>
      (\<forall>i<nin. \<forall>t < seen a2 m i. ord ! (offset a2 i + t) = int (bucket a2 i ! t))"
proof (induction m)
  case 0
  then show ?case
    by (simp add: seen_def del: upt_Suc)
next
  case (Suc m)
  let ?body = "\<lambda>k s. case s of (inz_count, assigns2_order) \<Rightarrow>
          bindE (vec_at a2 k) (\<lambda>it.
          bindE (at_int inz_count (fst it)) (\<lambda>pos.
          bindE (set_int inz_count (fst it) (pos + 1)) (\<lambda>inz_count1.
          bindE (set_int assigns2_order pos (int k)) (\<lambda>assigns2_order1.
          Inr (inz_count1, assigns2_order1)))))"
  let ?c = "\<lambda>m. map (\<lambda>j. int (offset a2 j + seen a2 m j)) [0..<Suc nin]"
  have m: "m < length a2" "m \<le> length a2"
    using Suc.prems by simp_all
  from Suc.IH [OF m(2)] obtain ord where
    run: "for_loop m ?body (map (\<lambda>j. int (offset a2 j)) [0..<Suc nin], replicate (length a2) 0) =
            Inr (?c m, ord)"
    and len: "length ord = length a2"
    and placed: "\<forall>i<nin. \<forall>t < seen a2 m i. ord ! (offset a2 i + t) = int (bucket a2 i ! t)"
    by blast
  obtain i0 where i0: "fst (a2 ! m) = int i0" "i0 < nin"
    using rng m(1) by (metis nonneg_int_cases of_nat_less_iff)
  let ?pos = "offset a2 i0 + seen a2 m i0"
  note nxt = bucket_next [OF m(1) i0(1)]
  have "?pos < offset a2 (Suc i0)"
    using nxt by (simp add: offset_Suc)
  then have pos: "?pos < length ord"
    using offset_le [of a2 "Suc i0"] len by simp
  have c_upd: "(?c m)[i0 := int ?pos + 1] = ?c (Suc m)"
    using i0 by (intro nth_equalityI) (auto simp del: upt_Suc simp: nth_list_update seen_Suc)
  have step: "?body m (?c m, ord) = Inr (?c (Suc m), ord[?pos := int m])"
  proof -
    have "vec_at a2 m = Inr (a2 ! m)"
      using m(1) by (simp add: vec_at_def)
    moreover have "at_int (?c m) (int i0) = Inr (int ?pos)"
      using i0(2) by (subst at_int_nat) (simp_all del: upt_Suc)
    moreover have "set_int (?c m) (int i0) (int ?pos + 1) = Inr ((?c m)[i0 := int ?pos + 1])"
      using i0(2) by (subst set_int_nat) (simp_all del: upt_Suc)
    moreover have "set_int ord (int ?pos) (int m) = Inr (ord[?pos := int m])"
      using pos by (rule set_int_nat)
    ultimately show ?thesis
      by (simp only: prod.case bindE_Inr i0(1) c_upd)
  qed
  have placed': "\<forall>i<nin. \<forall>t < seen a2 (Suc m) i. ord[?pos := int m] ! (offset a2 i + t) = int (bucket a2 i ! t)"
  proof (intro allI impI)
    fix i t
    assume i: "i < nin" and t: "t < seen a2 (Suc m) i"
    have tb: "t < length (bucket a2 i)"
      using t seen_le_bucket [of "Suc m" a2 i] Suc.prems by simp
    show "ord[?pos := int m] ! (offset a2 i + t) = int (bucket a2 i ! t)"
    proof (cases "offset a2 i + t = ?pos")
      case True
      then have "i = i0 \<and> t = seen a2 m i0"
        using position_inj [OF tb _ True] nxt by simp
      then show ?thesis
        using True pos nxt by simp
    next
      case False
      have "t < seen a2 m i"
      proof (cases "i = i0")
        case True
        then show ?thesis
          using t False by (auto simp: seen_Suc split: if_splits)
      next
        case False
        then show ?thesis
          using t i0(1) by (simp add: seen_Suc)
      qed
      then show ?thesis
        using placed i False by simp
    qed
  qed
  have "for_loop (Suc m) ?body (map (\<lambda>j. int (offset a2 j)) [0..<Suc nin], replicate (length a2) 0) =
        Inr (?c (Suc m), ord[?pos := int m])"
    by (simp only: for_loop.simps run bindE_Inr step)
  then show ?case
    using len placed' by (intro exI [of _ "ord[?pos := int m]"]) simp
qed

lemma concat_bucket_nth:
  "i < j \<Longrightarrow> t < length (bucket a2 i) \<Longrightarrow>
   concat (map (bucket a2) [0..<j]) ! (offset a2 i + t) = bucket a2 i ! t"
proof (induction j)
  case 0
  then show ?case by simp
next
  case (Suc j)
  have len: "length (concat (map (bucket a2) [0..<j])) = offset a2 j"
    by (simp add: offset_def)
  show ?case
  proof (cases "i = j")
    case True
    then show ?thesis
      using len by (simp add: nth_append)
  next
    case False
    then have "i < j" using Suc.prems by simp
    then have "offset a2 i + t < offset a2 j"
      using Suc.prems(2) by (rule position_order)
    then show ?thesis
      using Suc.IH [OF \<open>i < j\<close> Suc.prems(2)] len by (simp add: nth_append)
  qed
qed

lemma position_cover:
  "p < offset a2 j \<Longrightarrow> \<exists>i<j. \<exists>t<length (bucket a2 i). p = offset a2 i + t"
proof (induction j)
  case 0
  then show ?case by (simp add: offset_0)
next
  case (Suc j)
  show ?case
  proof (cases "p < offset a2 j")
    case True
    then obtain i t where "i < j" "t < length (bucket a2 i)" "p = offset a2 i + t"
      using Suc.IH by blast
    then show ?thesis
      using less_Suc_eq by blast
  next
    case False
    then have "p - offset a2 j < length (bucket a2 j)" "p = offset a2 j + (p - offset a2 j)"
      using Suc.prems by (simp_all add: offset_Suc)
    then show ?thesis
      by blast
  qed
qed

lemma assigns2_order_of_run:
  assumes rng: "\<forall>k<length a2. 0 \<le> fst (a2 ! k) \<and> fst (a2 ! k) < int nin"
  shows "assigns2_order_of a2 nin = Inr (map int (concat (map (bucket a2) [0..<nin])))"
proof -
  have c0: "count_inputs a2 nin = Inr (0 # map (\<lambda>i. int (length (bucket a2 i))) [0..<nin])"
    unfolding count_inputs_def using count_inputs_run [OF rng, of "length a2"]
    by (simp add: seen_all)
  have "map (\<lambda>j. if j \<le> nin then int (offset a2 j) else int (length (bucket a2 (j - 1)))) [0..<Suc nin] =
        map (\<lambda>j. int (offset a2 j)) [0..<Suc nin]"
    by (intro map_cong) auto
  then have c1: "cumsum nin (0 # map (\<lambda>i. int (length (bucket a2 i))) [0..<nin]) =
      Inr (map (\<lambda>j. int (offset a2 j)) [0..<Suc nin])"
    unfolding cumsum_def using cumsum_run [of nin nin a2] by simp
  from place_assignments_run [OF rng, of "length a2"] obtain ord where
    c2: "place_assignments a2 (map (\<lambda>j. int (offset a2 j)) [0..<Suc nin]) =
           Inr (map (\<lambda>j. int (offset a2 j + seen a2 (length a2) j)) [0..<Suc nin], ord)"
    and len: "length ord = length a2"
    and placed: "\<forall>i<nin. \<forall>t<length (bucket a2 i). ord ! (offset a2 i + t) = int (bucket a2 i ! t)"
    unfolding place_assignments_def seen_all by auto
  have glen: "length (concat (map (bucket a2) [0..<nin])) = length a2"
    using offset_all [OF rng] by (simp add: offset_def)
  have "ord = map int (concat (map (bucket a2) [0..<nin]))"
  proof (rule nth_equalityI)
    show "length ord = length (map int (concat (map (bucket a2) [0..<nin])))"
      using len glen by simp
  next
    fix p
    assume "p < length ord"
    then have p: "p < offset a2 nin"
      using len offset_all [OF rng] by simp
    then obtain i t where it: "i < nin" "t < length (bucket a2 i)" "p = offset a2 i + t"
      using position_cover by blast
    have "p < length (concat (map (bucket a2) [0..<nin]))"
      using p by (simp add: offset_def)
    then have "map int (concat (map (bucket a2) [0..<nin])) ! p =
               int (concat (map (bucket a2) [0..<nin]) ! p)"
      by (rule nth_map)
    also have "\<dots> = int (bucket a2 i ! t)"
      using concat_bucket_nth [OF it(1,2)] it(3) by simp
    finally show "ord ! p = map int (concat (map (bucket a2) [0..<nin])) ! p"
      using placed it by simp
  qed
  then show ?thesis
    by (simp only: assigns2_order_of_def c0 c1 c2 bindE_Inr snd_conv)
qed


lemma grouped_Suc:
  "grouped_by_input xs (Suc m) = grouped_by_input xs m @ filter (\<lambda>p. fst p = int m) xs"
  by (simp add: grouped_by_input_def)

lemma reorder_by_buckets:
  "map (\<lambda>j. a2 ! nat j) (map int (concat (map (bucket a2) [0..<nin]))) = grouped_by_input a2 nin"
proof -
  have b: "map ((!) a2) (bucket a2 i) = filter (\<lambda>p. fst p = int i) a2" for i
  proof -
    have "filter (\<lambda>p. fst p = int i) (map ((!) a2) [0..<length a2]) =
          map ((!) a2) (filter ((\<lambda>p. fst p = int i) \<circ> (!) a2) [0..<length a2])"
      by (rule filter_map)
    then show ?thesis
      by (simp add: bucket_def map_nth comp_def)
  qed
  have "map (\<lambda>j. a2 ! nat j) (map int (concat (map (bucket a2) [0..<nin]))) =
        map ((!) a2) (concat (map (bucket a2) [0..<nin]))"
    by (simp add: comp_def)
  also have "\<dots> = concat (map (\<lambda>i. map ((!) a2) (bucket a2 i)) [0..<nin])"
    by (simp add: map_concat comp_def)
  finally show ?thesis
    by (simp add: b grouped_by_input_def)
qed

lemma mset_filter_range_Suc:
  "mset (filter (\<lambda>p. 0 \<le> fst p \<and> fst p < int (Suc m)) xs) =
   mset (filter (\<lambda>p. 0 \<le> fst p \<and> fst p < int m) xs) + mset (filter (\<lambda>p. fst p = int m) xs)"
  by (induction xs) auto

lemma grouped_mset:
  "mset (grouped_by_input xs m) = mset (filter (\<lambda>p. 0 \<le> fst p \<and> fst p < int m) xs)"
proof (induction m)
  case 0
  have "filter (\<lambda>p. 0 \<le> fst p \<and> fst p < int 0) xs = []"
    by (induction xs) auto
  then show ?case
    by (simp add: grouped_by_input_def)
next
  case (Suc m)
  then show ?case
    unfolding grouped_Suc mset_filter_range_Suc by simp
qed

lemma grouped_keys:
  assumes "p \<in> set (grouped_by_input xs m)"
  shows "0 \<le> fst p \<and> fst p < int m"
proof -
  have "set (grouped_by_input xs m) = set (filter (\<lambda>p. 0 \<le> fst p \<and> fst p < int m) xs)"
    using grouped_mset [of xs m] by (rule mset_eq_setD)
  then show ?thesis
    using assms by simp
qed

lemma sorted_same_key: "sorted (map fst (filter (\<lambda>p. fst p = c) xs))"
  by (induction xs) auto

lemma grouped_sorted: "sorted (map fst (grouped_by_input xs m))"
proof (induction m)
  case 0
  then show ?case by (simp add: grouped_by_input_def)
next
  case (Suc m)
  have "\<forall>x\<in>set (grouped_by_input xs m). \<forall>y\<in>set (filter (\<lambda>p. fst p = int m) xs). fst x \<le> fst y"
    using grouped_keys [of _ xs m] by fastforce
  then show ?case
    using Suc sorted_same_key [of "int m" xs] by (simp add: grouped_Suc sorted_append)
qed

lemma grouped_filter:
  "filter (\<lambda>p. fst p = k) (grouped_by_input xs m) =
   (if 0 \<le> k \<and> k < int m then filter (\<lambda>p. fst p = k) xs else [])"
proof (induction m)
  case 0
  then show ?case by (auto simp: grouped_by_input_def)
next
  case (Suc m)
  have "filter (\<lambda>p. fst p = k) (filter (\<lambda>p. fst p = int m) xs) =
        (if k = int m then filter (\<lambda>p. fst p = k) xs else [])"
    by (induction xs) auto
  then show ?case
    using Suc by (auto simp: grouped_Suc)
qed

lemma ties_sorted:
  "(\<And>a. sorted_wrt R (filter (\<lambda>p. fst p = a) xs)) \<Longrightarrow>
   sorted_wrt (\<lambda>p q. fst p = fst q \<longrightarrow> R p q) xs"
proof (induction xs)
  case Nil
  then show ?case by simp
next
  case (Cons x xs)
  have tail: "sorted_wrt R (filter (\<lambda>p. fst p = a) xs)" for a
    using Cons.prems [of a] by (cases "fst x = a") simp_all
  have "\<forall>y\<in>set xs. fst x = fst y \<longrightarrow> R x y"
    using Cons.prems [of "fst x"] by auto
  then show ?case
    using Cons.IH [OF tail] by simp
qed

lemma grouped_is_sort_key:
  assumes "\<forall>p\<in>set xs. 0 \<le> fst p \<and> fst p < int m"
  shows "grouped_by_input xs m = sort_key fst xs"
proof (rule properties_for_sort_key [symmetric])
  have all: "filter (\<lambda>p. 0 \<le> fst p \<and> fst p < int m) xs = xs"
    using assms by (intro filter_True) simp
  show "mset (grouped_by_input xs m) = mset xs"
    by (simp add: grouped_mset all)
  show "sorted (map fst (grouped_by_input xs m))"
    by (rule grouped_sorted)
  fix k
  assume "k \<in> set (grouped_by_input xs m)"
  have "filter (\<lambda>x. fst k = fst x) ys = filter (\<lambda>p. fst p = fst k) ys" for ys :: "(int \<times> int) list"
    by (intro filter_cong) auto
  then show "filter (\<lambda>x. fst k = fst x) (grouped_by_input xs m) = filter (\<lambda>x. fst k = fst x) xs"
    using grouped_filter [of "fst k" xs m] grouped_keys [OF \<open>k \<in> set (grouped_by_input xs m)\<close>]
    by simp
qed


lemma output_order_increasing:
  "sorted_wrt (\<lambda>p q. snd p < snd q) (map (\<lambda>k. (asg ! k, int k)) [0..<n])"
proof -
  have "sorted_wrt (\<lambda>x y. int x < int y) [0..<n]"
    using sorted_wrt_upt [of 0 n] by (rule sorted_wrt_mono_rel [rotated]) simp
  then show ?thesis
    by (simp add: sorted_wrt_map)
qed

text \<open>
  Claim C3, as the code has it. The pair list that \<open>init\<close> caches is the pairing
  \<open>(assigns_[k], k)\<close> in output order. The grouping is computed by \<open>evaluateMX\<close> at every
  call: when every entry of \<open>assigns_\<close> is a nonzero of the input (\<open>nin\<close> of them), the
  three loops return an order under which the cached pairs, read as
  \<open>assigns2_[assigns2_order[k]]\<close>, are a permutation of the pairing, ascending in the
  input index, with ties in increasing output index; it is the stable sort of the
  cached list by input index.
\<close>

theorem grouping_order_of_evaluateMX:
  assumes "init node = Inr node'"
    and "\<forall>k<length (assigns node). 0 \<le> assigns node ! k \<and> assigns node ! k < int nin"
  shows "assigns2 node' = map (\<lambda>k. (assigns node ! k, int k)) [0..<length (assigns node)] \<and>
     (\<exists>ord. assigns2_order_of (assigns2 node') nin = Inr ord \<and>
        mset (map (\<lambda>j. assigns2 node' ! nat j) ord) = mset (assigns2 node') \<and>
        sorted (map fst (map (\<lambda>j. assigns2 node' ! nat j) ord)) \<and>
        sorted_wrt (\<lambda>p q. fst p = fst q \<longrightarrow> snd p < snd q) (map (\<lambda>j. assigns2 node' ! nat j) ord) \<and>
        map (\<lambda>j. assigns2 node' ! nat j) ord = sort_key fst (assigns2 node'))"
proof -
  let ?a2 = "assigns2 node'"
  let ?n = "length (assigns node)"
  have d: "length (dep node) = 1"
    using assms(1) by (simp add: init_result split: if_splits)
  then have a2: "?a2 = map (\<lambda>k. (assigns node ! k, int k)) [0..<?n]"
    using assms(1) by (auto simp: init_result)
  have rng: "\<forall>k<length ?a2. 0 \<le> fst (?a2 ! k) \<and> fst (?a2 ! k) < int nin"
    using assms(2) by (simp add: a2)
  then have rng': "\<forall>p\<in>set ?a2. 0 \<le> fst p \<and> fst p < int nin"
    by (metis in_set_conv_nth)
  let ?ord = "map int (concat (map (bucket ?a2) [0..<nin]))"
  let ?pairs = "map (\<lambda>j. ?a2 ! nat j) ?ord"
  have run: "assigns2_order_of ?a2 nin = Inr ?ord"
    using rng by (rule assigns2_order_of_run)
  have pairs: "?pairs = grouped_by_input ?a2 nin"
    by (rule reorder_by_buckets)
  have sk: "?pairs = sort_key fst ?a2"
    using grouped_is_sort_key [OF rng'] pairs by simp
  have perm: "mset ?pairs = mset ?a2"
    by (simp only: sk mset_sort)
  have srt: "sorted (map fst ?pairs)"
    by (simp only: pairs grouped_sorted)
  have "sorted_wrt (\<lambda>p q. snd p < snd q) ?a2"
    unfolding a2 by (rule output_order_increasing)
  then have "sorted_wrt (\<lambda>p q. snd p < snd q) (filter (\<lambda>p. fst p = a) (grouped_by_input ?a2 nin))" for a
    by (simp add: grouped_filter sorted_wrt_filter)
  then have ties: "sorted_wrt (\<lambda>p q. fst p = fst q \<longrightarrow> snd p < snd q) ?pairs"
    unfolding pairs by (rule ties_sorted)
  show ?thesis
    using a2 run perm srt ties sk by blast
qed

theorem grouping_order_of_evaluateMX_witness:
  "init example_node = Inr example_node \<and>
   assigns2_order_of (assigns2 example_node) 4 = Inr [1, 0] \<and>
   map (\<lambda>j. assigns2 example_node ! nat j) [1, 0] = [(1, 1), (3, 0)] \<and>
   sort_key fst (assigns2 example_node) = [(1, 1), (3, 0)]"
proof -
  have "[0..<2] = [0, Suc 0]"
    by (simp add: upt_rec)
  then have run: "init example_node = Inr example_node"
    by (simp add: init_result example_node_def numeral_2_eq_2)
  have rng: "\<forall>k<length (assigns example_node). 0 \<le> assigns example_node ! k \<and>
      assigns example_node ! k < int 4"
    by (simp add: example_node_def All_less_Suc)
  have ord: "assigns2_order_of (assigns2 example_node) 4 = Inr [1, 0]"
    by (simp add: assigns2_order_of_def count_inputs_def cumsum_def place_assignments_def
        example_node_def bindE_Inr vec_at_def at_int_def set_int_def numeral_2_eq_2
        numeral_3_eq_3 eval_nat_numeral)
  show ?thesis
    using grouping_order_of_evaluateMX [OF run rng] run ord
    by (simp add: example_node_def)
qed

text \<open>
  Claim C3 as stated fails: for \<open>assigns_ = [3,1]\<close> the cached list is \<open>[(3,0), (1,1)]\<close>,
  which is not ascending in the input index.
\<close>

theorem cached_pairs_counterexample:
  "init example_node = Inr example_node \<and> assigns2 example_node = [(3, 0), (1, 1)] \<and>
   \<not> sorted (map fst (assigns2 example_node))"
proof -
  have "[0..<2] = [0, Suc 0]"
    by (simp add: upt_rec)
  then show ?thesis
    by (simp add: init_result example_node_def numeral_2_eq_2)
qed

subsection \<open>evaluateMX clears the adjoint seeds\<close>

lemma bindE_eq_Inr: "bindE m f = Inr y \<longleftrightarrow> (\<exists>x. m = Inr x \<and> f x = Inr y)"
  by (cases m) (simp_all add: bindE_def)

lemma vec_at_eq_Inr: "vec_at v i = Inr x \<longleftrightarrow> i < length v \<and> x = v ! i"
  by (auto simp: vec_at_def)

lemma adjoint_sensitivity_result:
  assumes "adjoint_sensitivity ext input output adjSeed adjSens tr d st = Inr st1"
  shows "st1 = st \<or> (\<exists>sens v. adjSens ! d ! 0 = Some sens \<and> st1 = st(sens := v))"
  using assms
  by (auto simp: adjoint_sensitivity_def bindE_eq_Inr vec_at_eq_Inr split: option.splits)

lemma adjoint_sensitivity_frame:
  assumes "adjoint_sensitivity ext input output adjSeed adjSens tr d st = Inr st1"
    and "adjSens ! d ! 0 \<noteq> Some p"
  shows "st1 p = st p"
  using adjoint_sensitivity_result [OF assms(1)] assms(2) by auto

lemma clear_adjoint_seed_result:
  assumes "clear_adjoint_seed adjSeed d st = Inr st2"
  shows "(\<forall>p. adjSeed ! d ! 0 = Some p \<longrightarrow> st2 p = None) \<and> (\<forall>p. st p = None \<longrightarrow> st2 p = None)"
  using assms
  by (auto simp: clear_adjoint_seed_def bindE_eq_Inr vec_at_eq_Inr split: option.splits)

lemma adjoint_loop_clears:
  assumes "\<forall>d e p. d < e \<and> e < length adjSeed \<and> adjSeed ! d ! 0 = Some p \<longrightarrow> adjSens ! e ! 0 \<noteq> Some p"
  shows "m \<le> length adjSeed \<Longrightarrow>
    for_loop m (evaluateMX_adjoint ext input output adjSeed adjSens tr) st = Inr st' \<Longrightarrow>
    \<forall>d<m. \<forall>p. adjSeed ! d ! 0 = Some p \<longrightarrow> st' p = None"
proof (induction m arbitrary: st')
  case 0
  then show ?case by simp
next
  case (Suc m)
  from Suc.prems(2) obtain sm where
    sm: "for_loop m (evaluateMX_adjoint ext input output adjSeed adjSens tr) st = Inr sm"
    and body: "evaluateMX_adjoint ext input output adjSeed adjSens tr m sm = Inr st'"
    by (auto simp: bindE_eq_Inr)
  from body obtain s1 where
    s1: "adjoint_sensitivity ext input output adjSeed adjSens tr m sm = Inr s1"
    and s2: "clear_adjoint_seed adjSeed m s1 = Inr st'"
    by (auto simp: evaluateMX_adjoint_def bindE_eq_Inr)
  have before: "\<forall>d<m. \<forall>p. adjSeed ! d ! 0 = Some p \<longrightarrow> sm p = None"
    using Suc.IH [OF _ sm] Suc.prems(1) by simp
  note cl = clear_adjoint_seed_result [OF s2]
  show ?case
  proof (intro allI impI)
    fix d p
    assume d: "d < Suc m" and p: "adjSeed ! d ! 0 = Some p"
    show "st' p = None"
    proof (cases "d = m")
      case True
      then show ?thesis
        using cl p by simp
    next
      case False
      then have dm: "d < m" using d by simp
      then have "adjSens ! m ! 0 \<noteq> Some p"
        using assms p Suc.prems(1) by auto
      then have "s1 p = sm p"
        using s1 by (rule adjoint_sensitivity_frame [rotated])
      then have "s1 p = None"
        using before dm p by simp
      then show ?thesis
        using cl by simp
    qed
  qed
qed

text \<open>
  Claim C8. When \<open>evaluateMX\<close> returns, every adjoint seed it was given (every non-null
  \<open>adjSeed[d][0]\<close>, for all \<open>nadj\<close> directions) holds the null expression \<open>MX()\<close>, whatever
  the collaborators compute, provided no seed of an earlier direction is also the
  sensitivity of a later one.
\<close>

theorem adjoint_seeds_cleared:
  assumes "evaluateMX ext node input output fwdSeed fwdSens adjSeed adjSens output_given st = Inr st'"
    and "\<forall>d e p. d < e \<and> e < length adjSeed \<and> adjSeed ! d ! 0 = Some p \<longrightarrow> adjSens ! e ! 0 \<noteq> Some p"
  shows "\<forall>d<length adjSeed. \<forall>p. adjSeed ! d ! 0 = Some p \<longrightarrow> st' p = None"
proof -
  from assms(1) obtain tr st2 where
    "for_loop (length adjSeed) (evaluateMX_adjoint ext input output adjSeed adjSens tr) st2 = Inr st'"
    by (auto simp: evaluateMX_def bindE_eq_Inr split: if_splits)
  then show ?thesis
    using adjoint_loop_clears [OF assms(2), of "length adjSeed"] by blast
qed

lemma example_run:
  "case evaluateMX example_externals example_mx_node [Some 0] [Some 1] [] []
          [[Some 3], [Some 5]] [[Some 2], [Some 4]] False example_mx_store
   of Inl e \<Rightarrow> False | Inr st' \<Rightarrow> True"
  by code_simp

theorem adjoint_seeds_cleared_witness:
  "\<exists>st'. evaluateMX example_externals example_mx_node [Some 0] [Some 1] [] []
            [[Some 3], [Some 5]] [[Some 2], [Some 4]] False example_mx_store = Inr st' \<and>
         st' 3 = None \<and> st' 5 = None"
proof -
  obtain st' where run: "evaluateMX example_externals example_mx_node [Some 0] [Some 1] [] []
            [[Some 3], [Some 5]] [[Some 2], [Some 4]] False example_mx_store = Inr st'"
    using example_run
    by (cases "evaluateMX example_externals example_mx_node [Some 0] [Some 1] [] []
            [[Some 3], [Some 5]] [[Some 2], [Some 4]] False example_mx_store") simp_all
  have apart: "\<forall>d e p. d < e \<and> e < length [[Some (3::nat)], [Some 5]] \<and>
      [[Some (3::nat)], [Some 5]] ! d ! 0 = Some p \<longrightarrow> [[Some (2::nat)], [Some 4]] ! e ! 0 \<noteq> Some p"
    by (auto simp: less_Suc_eq)
  have "\<forall>d<length [[Some (3::nat)], [Some 5]]. \<forall>p. [[Some (3::nat)], [Some 5]] ! d ! 0 = Some p \<longrightarrow> st' p = None"
    using run apart by (rule adjoint_seeds_cleared)
  then have "st' 3 = None \<and> st' 5 = None"
    by (simp add: All_less_Suc)
  then show ?thesis
    using run by simp
qed

end
